theory Spec2Isabelle
  imports Main "HOL-Library.Sublist"
begin

section \<open>Errors and small JavaScript helpers\<close>

text \<open>
  Every \<^verbatim>\<open>throw\<close> of the source, and every run-time \<^verbatim>\<open>TypeError\<close> and
  \<^verbatim>\<open>SyntaxError\<close> the language raises on the modelled paths, is a value of this
  type. A function that can throw returns \<open>error + 'a\<close>, with \<open>Inl\<close> for the throw.
\<close>

datatype error =
    PaymentRequiredError string
  | Error string
  | TypeError string
  | SyntaxError string

definition thenE :: "error + 'a \<Rightarrow> ('a \<Rightarrow> error + 'b) \<Rightarrow> error + 'b" where
  "thenE r f = (case r of Inl e \<Rightarrow> Inl e | Inr v \<Rightarrow> f v)"

text \<open>
  \<^verbatim>\<open>Array.prototype.find\<close> returns the first element that satisfies the predicate.
  Key records are objects that are mutated in place, so the model looks for the
  \<^emph>\<open>position\<close> of that element in the provider's array: a position is the identity of
  a record.
\<close>

fun findIndex :: "('a \<Rightarrow> bool) \<Rightarrow> 'a list \<Rightarrow> nat option" where
  "findIndex P [] = None"
| "findIndex P (x # xs) =
     (if P x then Some 0 else map_option Suc (findIndex P xs))"

text \<open>
  \<^verbatim>\<open>Array.prototype.sort(compare)\<close> is a stable sort (ECMAScript 2019); with a
  consistent comparator its result is the stable ordering, which insertion from the
  right computes: \<open>x\<close> goes in front of the first \<open>y\<close> with \<open>compare x y \<le> 0\<close>.
\<close>

fun insertBy :: "('a \<Rightarrow> 'a \<Rightarrow> int) \<Rightarrow> 'a \<Rightarrow> 'a list \<Rightarrow> 'a list" where
  "insertBy cmp x [] = [x]"
| "insertBy cmp x (y # ys) =
     (if cmp x y \<le> 0 then x # y # ys else y # insertBy cmp x ys)"

fun sortBy :: "('a \<Rightarrow> 'a \<Rightarrow> int) \<Rightarrow> 'a list \<Rightarrow> 'a list" where
  "sortBy cmp [] = []"
| "sortBy cmp (x # xs) = insertBy cmp x (sortBy cmp xs)"

section \<open>The Google AI key provider\<close>

text \<open>
  \<^verbatim>\<open>GoogleAIModelFamily\<close> is imported from a module that is not part of the
  sources at hand; its three members are fixed by the usage counters
  \<^verbatim>\<open>gemini-flashTokens\<close>, \<^verbatim>\<open>gemini-proTokens\<close> and \<^verbatim>\<open>gemini-ultraTokens\<close> that
  the constructor must supply for the mapped type \<^verbatim>\<open>GoogleAIKeyUsage\<close>.
\<close>

datatype GoogleAIModelFamily = GeminiFlash | GeminiPro | GeminiUltra

text \<open>
  The record \<^verbatim>\<open>GoogleAIKey\<close>. The read-only field \<^verbatim>\<open>service\<close> always holds
  \<^verbatim>\<open>"google-ai"\<close> and is left out. Times are milliseconds as \<^verbatim>\<open>Date.now()\<close>
  returns them; they and the counters are integers.
\<close>

record GoogleAIKey =
  key :: string
  hash :: string
  modelFamilies :: "GoogleAIModelFamily list"
  isDisabled :: bool
  isRevoked :: bool
  promptCount :: int
  lastUsed :: int
  lastChecked :: int
  rateLimitedAt :: int
  rateLimitedUntil :: int
  geminiFlashTokens :: int
  geminiProTokens :: int
  geminiUltraTokens :: int
  modelIds :: "string list"

definition RATE_LIMIT_LOCKOUT :: int where
  "RATE_LIMIT_LOCKOUT = 2000"

definition KEY_REUSE_DELAY :: int where
  "KEY_REUSE_DELAY = 500"

text \<open>
  The filter of \<^verbatim>\<open>get\<close>:
  \<^verbatim>\<open>!k.isDisabled && k.modelFamilies.includes(neededFamily)\<close>.
\<close>

definition eligible :: "GoogleAIModelFamily \<Rightarrow> GoogleAIKey \<Rightarrow> bool" where
  "eligible neededFamily k \<longleftrightarrow> \<not> isDisabled k \<and> neededFamily \<in> set (modelFamilies k)"

text \<open>The comparator handed to \<^verbatim>\<open>sort\<close> in \<^verbatim>\<open>get\<close>.\<close>

definition compareKeys :: "int \<Rightarrow> GoogleAIKey \<Rightarrow> GoogleAIKey \<Rightarrow> int" where
  "compareKeys now a b =
     (let aRateLimited = now - rateLimitedAt a < RATE_LIMIT_LOCKOUT;
          bRateLimited = now - rateLimitedAt b < RATE_LIMIT_LOCKOUT
      in if aRateLimited \<and> \<not> bRateLimited then 1
         else if \<not> aRateLimited \<and> bRateLimited then - 1
         else if aRateLimited \<and> bRateLimited then rateLimitedAt a - rateLimitedAt b
         else lastUsed a - lastUsed b)"

text \<open>
  \<^verbatim>\<open>throttle(hash)\<close>, with the value \<open>now\<close> of its own \<^verbatim>\<open>Date.now()\<close>. The
  non-null assertion on \<^verbatim>\<open>find\<close> is erased at run time: with no such key the first
  property read throws a \<^verbatim>\<open>TypeError\<close>, before anything is written.
\<close>

definition throttle :: "int \<Rightarrow> string \<Rightarrow> GoogleAIKey list \<Rightarrow> error + GoogleAIKey list" where
  "throttle now h keys =
     (case findIndex (\<lambda>k. hash k = h) keys of
        None \<Rightarrow> Inl (TypeError ''Cannot read properties of undefined (reading 'rateLimitedUntil')'')
      | Some i \<Rightarrow>
          (let currentRateLimit = rateLimitedUntil (keys ! i);
               nextRateLimit = now + KEY_REUSE_DELAY
           in Inr (keys[i := (keys ! i)\<lparr>rateLimitedAt := now,
                     rateLimitedUntil := max currentRateLimit nextRateLimit\<rparr>])))"

text \<open>
  The array \<^verbatim>\<open>availableKeys\<close> of \<^verbatim>\<open>get\<close>, as the positions in \<^verbatim>\<open>this.keys\<close> of
  the records that pass the filter, and \<^verbatim>\<open>keysByPriority\<close>, its sorted form.
  \<^verbatim>\<open>filter\<close> builds a new array, so the sort does not reorder \<^verbatim>\<open>this.keys\<close>.
\<close>

definition availableKeys :: "GoogleAIModelFamily \<Rightarrow> GoogleAIKey list \<Rightarrow> nat list" where
  "availableKeys neededFamily keys =
     filter (\<lambda>i. eligible neededFamily (keys ! i)) [0..<length keys]"

definition keysByPriority :: "GoogleAIModelFamily \<Rightarrow> int \<Rightarrow> GoogleAIKey list \<Rightarrow> nat list" where
  "keysByPriority neededFamily now keys =
     sortBy (\<lambda>i j. compareKeys now (keys ! i) (keys ! j)) (availableKeys neededFamily keys)"

text \<open>
  \<^verbatim>\<open>get(model)\<close>. \<open>getGoogleAIModelFamily\<close> is the function of that name, imported
  from a module outside the sources at hand, and is a parameter. \<open>now\<close> is the value
  of \<^verbatim>\<open>Date.now()\<close> read in \<^verbatim>\<open>get\<close> and \<open>tnow\<close> the one read in \<^verbatim>\<open>throttle\<close>.
  The result is the copy \<^verbatim>\<open>{ ...selectedKey }\<close> taken after both writes, and the
  provider's array after them.
\<close>

definition get ::
  "(string \<Rightarrow> GoogleAIModelFamily) \<Rightarrow> int \<Rightarrow> int \<Rightarrow> string \<Rightarrow> GoogleAIKey list
     \<Rightarrow> error + (GoogleAIKey \<times> GoogleAIKey list)" where
  "get getGoogleAIModelFamily now tnow model keys =
     (let neededFamily = getGoogleAIModelFamily model in
      if length (availableKeys neededFamily keys) = 0
      then Inl (PaymentRequiredError ''No Google AI keys available'')
      else
        (case keysByPriority neededFamily now keys of
           [] \<Rightarrow> Inl (TypeError ''Cannot set properties of undefined (setting 'lastUsed')'')
         | selectedKey # _ \<Rightarrow>
             (let keys1 = keys[selectedKey := (keys ! selectedKey)\<lparr>lastUsed := now\<rparr>]
              in thenE (throttle tnow (hash (keys1 ! selectedKey)) keys1)
                   (\<lambda>keys2. Inr (keys2 ! selectedKey, keys2)))))"

text \<open>
  The "currently locked out" test of the comparator, and the ranking in the words of the
  specification: not locked out beats locked out; of two locked-out keys the one with
  the earlier \<^verbatim>\<open>rateLimitedAt\<close> ranks higher; otherwise the one with the smaller
  \<^verbatim>\<open>lastUsed\<close> ranks higher. It is compared with \<open>compareKeys\<close> below.
\<close>

definition lockedOut :: "int \<Rightarrow> GoogleAIKey \<Rightarrow> bool" where
  "lockedOut now k \<longleftrightarrow> now - rateLimitedAt k < RATE_LIMIT_LOCKOUT"

definition ranksHigher :: "int \<Rightarrow> GoogleAIKey \<Rightarrow> GoogleAIKey \<Rightarrow> bool" where
  "ranksHigher now a b \<longleftrightarrow>
     (if \<not> lockedOut now a \<and> lockedOut now b then True
      else if lockedOut now a \<and> \<not> lockedOut now b then False
      else if lockedOut now a \<and> lockedOut now b then rateLimitedAt a < rateLimitedAt b
      else lastUsed a < lastUsed b)"

subsection \<open>Construction\<close>

text \<open>
  \<^verbatim>\<open>String.prototype.trim\<close> strips white space and line terminators from both ends.
  A \<open>char\<close> stands for a code unit below 256, where these are the six ASCII ones and
  the no-break space.
\<close>

definition isWhiteSpace :: "char \<Rightarrow> bool" where
  "isWhiteSpace c \<longleftrightarrow>
     c \<in> set [CHR 0x09, CHR 0x0A, CHR 0x0B, CHR 0x0C, CHR 0x0D, CHR 0x20, CHR 0xA0]"

definition trim :: "string \<Rightarrow> string" where
  "trim s = rev (dropWhile isWhiteSpace (rev (dropWhile isWhiteSpace s)))"

text \<open>\<^verbatim>\<open>s.split(",")\<close>: the pieces between the separators, empty ones included.\<close>

fun split :: "char \<Rightarrow> string \<Rightarrow> string list" where
  "split sep [] = [[]]"
| "split sep (c # cs) =
     (if c = sep then [] # split sep cs
      else (case split sep cs of [] \<Rightarrow> [[c]] | p # ps \<Rightarrow> (c # p) # ps))"

text \<open>\<^verbatim>\<open>[...new Set(xs)]\<close>: a set keeps its elements in the order of first insertion.\<close>

definition dedupe :: "'a list \<Rightarrow> 'a list" where
  "dedupe xs = fold (\<lambda>x acc. if x \<in> set acc then acc else acc @ [x]) xs []"

text \<open>
  The constructor. \<open>sha256hex\<close> is the hexadecimal SHA-256 digest of Node's
  \<^verbatim>\<open>crypto\<close> module, a parameter; \<open>googleAIKey\<close> is \<^verbatim>\<open>config.googleAIKey\<close>, absent
  when the variable is not set.
\<close>

definition newKey :: "(string \<Rightarrow> string) \<Rightarrow> string \<Rightarrow> GoogleAIKey" where
  "newKey sha256hex k =
     \<lparr>key = k, hash = ''plm-'' @ take 8 (sha256hex k), modelFamilies = [GeminiPro],
      isDisabled = False, isRevoked = False, promptCount = 0, lastUsed = 0, lastChecked = 0,
      rateLimitedAt = 0, rateLimitedUntil = 0, geminiFlashTokens = 0, geminiProTokens = 0,
      geminiUltraTokens = 0, modelIds = []\<rparr>"

definition GoogleAIKeyProvider :: "(string \<Rightarrow> string) \<Rightarrow> string option \<Rightarrow> GoogleAIKey list" where
  "GoogleAIKeyProvider sha256hex googleAIKey =
     (case map_option trim googleAIKey of
        None \<Rightarrow> []
      | Some keyConfig \<Rightarrow>
          if keyConfig = [] then []
          else map (newKey sha256hex) (dedupe (map trim (split CHR '','' keyConfig))))"

subsection \<open>The other operations\<close>

definition disable :: "GoogleAIKey \<Rightarrow> GoogleAIKey list \<Rightarrow> GoogleAIKey list" where
  "disable k keys =
     (case findIndex (\<lambda>k'. hash k' = hash k) keys of
        None \<Rightarrow> keys
      | Some i \<Rightarrow>
          if isDisabled (keys ! i) then keys else keys[i := (keys ! i)\<lparr>isDisabled := True\<rparr>])"

text \<open>
  \<^verbatim>\<open>update(hash, update: Partial<GoogleAIKey>)\<close>: the patch may hold any field of a
  key. (The exported type \<^verbatim>\<open>GoogleAIKeyUpdate\<close> leaves out \<^verbatim>\<open>key\<close>, \<^verbatim>\<open>hash\<close>,
  \<^verbatim>\<open>lastUsed\<close>, \<^verbatim>\<open>promptCount\<close>, \<^verbatim>\<open>rateLimitedAt\<close> and \<^verbatim>\<open>rateLimitedUntil\<close>, but it
  is not the type of this parameter.)
\<close>

record GoogleAIKeyPatch =
  p_key :: "string option"
  p_hash :: "string option"
  p_modelFamilies :: "GoogleAIModelFamily list option"
  p_isDisabled :: "bool option"
  p_isRevoked :: "bool option"
  p_promptCount :: "int option"
  p_lastUsed :: "int option"
  p_lastChecked :: "int option"
  p_rateLimitedAt :: "int option"
  p_rateLimitedUntil :: "int option"
  p_geminiFlashTokens :: "int option"
  p_geminiProTokens :: "int option"
  p_geminiUltraTokens :: "int option"
  p_modelIds :: "string list option"

definition orElse :: "'a option \<Rightarrow> 'a \<Rightarrow> 'a" where
  "orElse v d = (case v of None \<Rightarrow> d | Some x \<Rightarrow> x)"

text \<open>\<^verbatim>\<open>Object.assign(k, p)\<close>: every field present in the patch is written.\<close>

definition assign :: "GoogleAIKey \<Rightarrow> GoogleAIKeyPatch \<Rightarrow> GoogleAIKey" where
  "assign k p =
     \<lparr>key = orElse (p_key p) (key k),
      hash = orElse (p_hash p) (hash k),
      modelFamilies = orElse (p_modelFamilies p) (modelFamilies k),
      isDisabled = orElse (p_isDisabled p) (isDisabled k),
      isRevoked = orElse (p_isRevoked p) (isRevoked k),
      promptCount = orElse (p_promptCount p) (promptCount k),
      lastUsed = orElse (p_lastUsed p) (lastUsed k),
      lastChecked = orElse (p_lastChecked p) (lastChecked k),
      rateLimitedAt = orElse (p_rateLimitedAt p) (rateLimitedAt k),
      rateLimitedUntil = orElse (p_rateLimitedUntil p) (rateLimitedUntil k),
      geminiFlashTokens = orElse (p_geminiFlashTokens p) (geminiFlashTokens k),
      geminiProTokens = orElse (p_geminiProTokens p) (geminiProTokens k),
      geminiUltraTokens = orElse (p_geminiUltraTokens p) (geminiUltraTokens k),
      modelIds = orElse (p_modelIds p) (modelIds k)\<rparr>"

text \<open>
  The patch applied is \<^verbatim>\<open>{ lastChecked: Date.now(), ...update }\<close>: a \<^verbatim>\<open>lastChecked\<close>
  of the caller's wins over the clock. With no key of that hash, \<^verbatim>\<open>Object.assign\<close>
  throws on its \<^verbatim>\<open>undefined\<close> target.
\<close>

definition update :: "int \<Rightarrow> string \<Rightarrow> GoogleAIKeyPatch \<Rightarrow> GoogleAIKey list \<Rightarrow> error + GoogleAIKey list" where
  "update now h upd keys =
     (case findIndex (\<lambda>k. hash k = h) keys of
        None \<Rightarrow> Inl (TypeError ''Cannot convert undefined or null to object'')
      | Some i \<Rightarrow>
          Inr (keys[i := assign (keys ! i)
                 (upd\<lparr>p_lastChecked := Some (orElse (p_lastChecked upd) now)\<rparr>)]))"

definition available :: "GoogleAIKey list \<Rightarrow> nat" where
  "available keys = length (filter (\<lambda>k. \<not> isDisabled k) keys)"

fun addTokens :: "GoogleAIModelFamily \<Rightarrow> int \<Rightarrow> GoogleAIKey \<Rightarrow> GoogleAIKey" where
  "addTokens GeminiFlash n k = k\<lparr>geminiFlashTokens := geminiFlashTokens k + n\<rparr>"
| "addTokens GeminiPro n k = k\<lparr>geminiProTokens := geminiProTokens k + n\<rparr>"
| "addTokens GeminiUltra n k = k\<lparr>geminiUltraTokens := geminiUltraTokens k + n\<rparr>"

definition incrementUsage ::
  "(string \<Rightarrow> GoogleAIModelFamily) \<Rightarrow> string \<Rightarrow> string \<Rightarrow> int \<Rightarrow> GoogleAIKey list \<Rightarrow> GoogleAIKey list" where
  "incrementUsage getGoogleAIModelFamily h model tokens keys =
     (case findIndex (\<lambda>k. hash k = h) keys of
        None \<Rightarrow> keys
      | Some i \<Rightarrow>
          keys[i := addTokens (getGoogleAIModelFamily model) tokens
                      ((keys ! i)\<lparr>promptCount := promptCount (keys ! i) + 1\<rparr>)])"

text \<open>
  \<^verbatim>\<open>getLockoutPeriod()\<close>, with the value \<open>now\<close> of its \<^verbatim>\<open>Date.now()\<close>. The method
  takes no argument. The first branch is the early return on an empty \<^verbatim>\<open>activeKeys\<close>;
  in the second, \<^verbatim>\<open>Math.min\<close> runs over the non-empty list of the waits.
\<close>

definition getLockoutPeriod :: "int \<Rightarrow> GoogleAIKey list \<Rightarrow> int" where
  "getLockoutPeriod now keys =
     (case filter (\<lambda>k. \<not> isDisabled k) keys of
        [] \<Rightarrow> 0
      | k # ks \<Rightarrow>
          (let activeKeys = k # ks;
               rateLimitedKeys = filter (\<lambda>k. now < rateLimitedUntil k) activeKeys;
               anyNotRateLimited = length rateLimitedKeys < length activeKeys
           in if anyNotRateLimited then 0
              else fold (\<lambda>k m. min m (rateLimitedUntil k - now)) ks (rateLimitedUntil k - now)))"

text \<open>
  The period in the words of the specification, which gives the method the model as an
  argument: 0 if some eligible key (enabled and of the model's family) is usable now,
  and otherwise the least \<^verbatim>\<open>rateLimitedUntil - now\<close> over the eligible keys.
\<close>

definition getLockoutPeriod_spec ::
  "(string \<Rightarrow> GoogleAIModelFamily) \<Rightarrow> int \<Rightarrow> string \<Rightarrow> GoogleAIKey list \<Rightarrow> int" where
  "getLockoutPeriod_spec getGoogleAIModelFamily now model keys =
     (let eligibleKeys = filter (eligible (getGoogleAIModelFamily model)) keys
      in if list_ex (\<lambda>k. rateLimitedUntil k \<le> now) eligibleKeys then 0
         else Min (set (map (\<lambda>k. rateLimitedUntil k - now) eligibleKeys)))"

definition markRateLimited :: "int \<Rightarrow> string \<Rightarrow> GoogleAIKey list \<Rightarrow> error + GoogleAIKey list" where
  "markRateLimited now keyHash keys =
     (case findIndex (\<lambda>k. hash k = keyHash) keys of
        None \<Rightarrow> Inl (TypeError ''Cannot set properties of undefined (setting 'rateLimitedAt')'')
      | Some i \<Rightarrow>
          Inr (keys[i := (keys ! i)\<lparr>rateLimitedAt := now,
                 rateLimitedUntil := now + RATE_LIMIT_LOCKOUT\<rparr>]))"

subsection \<open>Runs of a provider\<close>

text \<open>
  The calls that write to a provider, each with the clock values it reads, and the
  provider's array after a call. A call that throws does so before its first write and
  leaves the array as it was.
\<close>

datatype call =
    Get string int int
  | Disable GoogleAIKey
  | Update string GoogleAIKeyPatch int
  | IncrementUsage string string int
  | MarkRateLimited string int

fun perform :: "(string \<Rightarrow> GoogleAIModelFamily) \<Rightarrow> GoogleAIKey list \<Rightarrow> call \<Rightarrow> GoogleAIKey list" where
  "perform fam keys (Get model now tnow) =
     (case get fam now tnow model keys of Inl e \<Rightarrow> keys | Inr (k, keys') \<Rightarrow> keys')"
| "perform fam keys (Disable k) = disable k keys"
| "perform fam keys (Update h upd now) =
     (case update now h upd keys of Inl e \<Rightarrow> keys | Inr keys' \<Rightarrow> keys')"
| "perform fam keys (IncrementUsage h model tokens) = incrementUsage fam h model tokens keys"
| "perform fam keys (MarkRateLimited h now) =
     (case markRateLimited now h keys of Inl e \<Rightarrow> keys | Inr keys' \<Rightarrow> keys')"

text \<open>
  Invariant (I2) of a key, and the calls that respect the exported patch type on the two
  fields of the window: an update that sets neither.
\<close>

definition windowOrdered :: "GoogleAIKey \<Rightarrow> bool" where
  "windowOrdered k \<longleftrightarrow> rateLimitedAt k \<le> rateLimitedUntil k"

fun leavesWindow :: "call \<Rightarrow> bool" where
  "leavesWindow (Update h upd now) \<longleftrightarrow> p_rateLimitedAt upd = None \<and> p_rateLimitedUntil upd = None"
| "leavesWindow _ \<longleftrightarrow> True"

subsection \<open>Sample data\<close>

text \<open>
  Concrete values on which the theorems below are instantiated: a family function in
  the manner of the absent \<^verbatim>\<open>getGoogleAIModelFamily\<close>, a stand-in for the digest, and
  a key with the fields of a freshly loaded one.
\<close>

definition sampleFamily :: "string \<Rightarrow> GoogleAIModelFamily" where
  "sampleFamily model =
     (if prefix ''gemini-ultra'' model then GeminiUltra
      else if prefix ''gemini-flash'' model then GeminiFlash
      else GeminiPro)"

definition sampleDigest :: "string \<Rightarrow> string" where
  "sampleDigest k = rev k"

definition sampleKey :: "string \<Rightarrow> GoogleAIKey" where
  "sampleKey s = newKey sampleDigest s"

definition emptyPatch :: GoogleAIKeyPatch where
  "emptyPatch =
     \<lparr>p_key = None, p_hash = None, p_modelFamilies = None, p_isDisabled = None,
      p_isRevoked = None, p_promptCount = None, p_lastUsed = None, p_lastChecked = None,
      p_rateLimitedAt = None, p_rateLimitedUntil = None, p_geminiFlashTokens = None,
      p_geminiProTokens = None, p_geminiUltraTokens = None, p_modelIds = None\<rparr>"

text \<open>
  Five keys at time 10000: one locked out, one disabled, and three free ones of which
  the last two were used least recently, at the same time.
\<close>

definition rankedKeys :: "GoogleAIKey list" where
  "rankedKeys =
     [(sampleKey ''a'')\<lparr>rateLimitedAt := 9000, rateLimitedUntil := 11000\<rparr>,
      (sampleKey ''b'')\<lparr>lastUsed := 50\<rparr>,
      (sampleKey ''c'')\<lparr>isDisabled := True\<rparr>,
      (sampleKey ''d'')\<lparr>lastUsed := 20\<rparr>,
      (sampleKey ''e'')\<lparr>lastUsed := 20\<rparr>]"

section \<open>The key pool\<close>

text \<open>
  Modelled from the spec: the type \<^verbatim>\<open>AIService\<close> of the module \<^verbatim>\<open>./index\<close>, which is
  not among the sources; the specification lists the tags openai, anthropic and
  google-ai.
\<close>

datatype AIService = OpenAI | Anthropic | GoogleAI

text \<open>
  A provider as the pool sees it: its \<^verbatim>\<open>service\<close> tag and its \<^verbatim>\<open>get\<close> method, whose
  outcome (a key, or a throw) is of any type \<open>'a\<close>.
\<close>

record 'a KeyProvider =
  service :: AIService
  provider_get :: "string \<Rightarrow> error + 'a"

text \<open>
  Modelled from the spec: the classes \<^verbatim>\<open>OpenAIKeyProvider\<close> and
  \<^verbatim>\<open>AnthropicKeyProvider\<close> are not among the sources. The constructor of the pool
  pushes one instance of each, in this order; each is given by its \<^verbatim>\<open>get\<close> method and
  carries the tag of its service.
\<close>

definition KeyPool :: "(string \<Rightarrow> error + 'a) \<Rightarrow> (string \<Rightarrow> error + 'a) \<Rightarrow> 'a KeyProvider list" where
  "KeyPool openAIGet anthropicGet =
     [\<lparr>service = OpenAI, provider_get = openAIGet\<rparr>,
      \<lparr>service = Anthropic, provider_get = anthropicGet\<rparr>]"

definition getService :: "string \<Rightarrow> error + AIService" where
  "getService model =
     (if prefix ''gpt'' model then Inr OpenAI
      else if prefix ''claude-'' model then Inr Anthropic
      else Inl (Error (''Unknown service for model '' @ model)))"

definition getKeyProvider :: "'a KeyProvider list \<Rightarrow> AIService \<Rightarrow> 'a KeyProvider option" where
  "getKeyProvider keyProviders s = find (\<lambda>provider. service provider = s) keyProviders"

text \<open>
  \<^verbatim>\<open>KeyPool.get(model)\<close>. The non-null assertion of \<^verbatim>\<open>getKeyProvider\<close> is erased at
  run time; a call of \<^verbatim>\<open>get\<close> on \<^verbatim>\<open>undefined\<close> throws.
\<close>

definition KeyPool_get :: "'a KeyProvider list \<Rightarrow> string \<Rightarrow> error + 'a" where
  "KeyPool_get keyProviders model =
     thenE (getService model) (\<lambda>s.
       case getKeyProvider keyProviders s of
         None \<Rightarrow> Inl (TypeError ''Cannot read properties of undefined (reading 'get')'')
       | Some provider \<Rightarrow> provider_get provider model)"

section \<open>JavaScript values\<close>

text \<open>
  The values a parsed JSON document and the objects built from it can hold. Numbers are
  integers (times, token counts, indices). An object is the list of its properties; a
  name is looked up from the front.
\<close>

datatype jsval =
    JUndefined
  | JNull
  | JBool bool
  | JNum int
  | JStr string
  | JArr "jsval list"
  | JObj "(string \<times> jsval) list"

type_synonym jsobject = "(string \<times> jsval) list"

definition propOf :: "jsobject \<Rightarrow> string \<Rightarrow> jsval" where
  "propOf fs n = (case map_of fs n of None \<Rightarrow> JUndefined | Some v \<Rightarrow> v)"

text \<open>\<^verbatim>\<open>o.n = v\<close>: an existing property keeps its place, a new one goes last.\<close>

fun setProp :: "jsobject \<Rightarrow> string \<Rightarrow> jsval \<Rightarrow> jsobject" where
  "setProp [] n v = [(n, v)]"
| "setProp ((m, w) # fs) n v = (if m = n then (m, v) # fs else (m, w) # setProp fs n v)"

text \<open>
  \<^verbatim>\<open>v.n\<close> for a name \<open>n\<close> that no prototype defines (the code reads none that one
  does): a \<^verbatim>\<open>TypeError\<close> on \<^verbatim>\<open>undefined\<close> and \<^verbatim>\<open>null\<close>, the property of an object, and
  \<^verbatim>\<open>undefined\<close> on everything else.
\<close>

fun getProp :: "jsval \<Rightarrow> string \<Rightarrow> error + jsval" where
  "getProp JUndefined n = Inl (TypeError (''Cannot read properties of undefined (reading '' @ n @ '')''))"
| "getProp JNull n = Inl (TypeError (''Cannot read properties of null (reading '' @ n @ '')''))"
| "getProp (JObj fs) n = Inr (propOf fs n)"
| "getProp v n = Inr JUndefined"

text \<open>\<^verbatim>\<open>v[0]\<close>.\<close>

fun index0 :: "jsval \<Rightarrow> error + jsval" where
  "index0 JUndefined = Inl (TypeError ''Cannot read properties of undefined (reading 0)'')"
| "index0 JNull = Inl (TypeError ''Cannot read properties of null (reading 0)'')"
| "index0 (JArr []) = Inr JUndefined"
| "index0 (JArr (x # xs)) = Inr x"
| "index0 (JObj fs) = Inr (propOf fs ''0'')"
| "index0 (JStr []) = Inr JUndefined"
| "index0 (JStr (c # cs)) = Inr (JStr [c])"
| "index0 v = Inr JUndefined"

fun truthy :: "jsval \<Rightarrow> bool" where
  "truthy JUndefined = False"
| "truthy JNull = False"
| "truthy (JBool b) = b"
| "truthy (JNum n) = (n \<noteq> 0)"
| "truthy (JStr s) = (s \<noteq> [])"
| "truthy (JArr xs) = True"
| "truthy (JObj fs) = True"

fun isArray :: "jsval \<Rightarrow> bool" where
  "isArray (JArr xs) = True"
| "isArray v = False"

text \<open>
  \<^verbatim>\<open>v?.trim()\<close>: \<^verbatim>\<open>undefined\<close> when \<open>v\<close> is \<^verbatim>\<open>undefined\<close> or \<^verbatim>\<open>null\<close>, the trimmed
  string for a string, and a \<^verbatim>\<open>TypeError\<close> for any other value, which has no such
  method.
\<close>

fun optTrim :: "jsval \<Rightarrow> error + jsval" where
  "optTrim JUndefined = Inr JUndefined"
| "optTrim JNull = Inr JUndefined"
| "optTrim (JStr s) = Inr (JStr (trim s))"
| "optTrim v = Inl (TypeError ''anthropicBody.completion?.trim is not a function'')"

definition optNum :: "int option \<Rightarrow> jsval" where
  "optNum n = (case n of None \<Rightarrow> JUndefined | Some i \<Rightarrow> JNum i)"

section \<open>The Anthropic router\<close>

text \<open>
  Modelled from the spec: the type \<^verbatim>\<open>APIFormat\<close> of a request's dialects is not among
  the sources; these are the dialects of the glossary.
\<close>

datatype APIFormat =
  openai | openai_text | openai_image | anthropic_text | anthropic_chat | google_ai

text \<open>
  The fields of an Express request that the router and its handlers read and write. The
  dialects are absent until a preprocessor sets them. \<open>url\<close> is the path of the request
  below the router's mount point, \<open>host\<close> is \<^verbatim>\<open>req.get("host")\<close>.
\<close>

record Request =
  url :: string
  body :: jsobject
  inboundApi :: "APIFormat option"
  outboundApi :: "APIFormat option"
  reqService :: "AIService option"
  promptTokens :: "int option"
  outputTokens :: "int option"
  tokenizerInfo :: jsval
  host :: "string option"

subsection \<open>The response handler\<close>

text \<open>
  \<open>ToString\<close> is the language's conversion of a value to a string, used by \<^verbatim>\<open>+\<close> on a
  string and by \<^verbatim>\<open>join\<close>; it is a parameter. \<open>now\<close> is the value of \<^verbatim>\<open>Date.now()\<close>.
\<close>

definition transformAnthropicTextResponseToOpenAI ::
  "(jsval \<Rightarrow> string) \<Rightarrow> int \<Rightarrow> jsobject \<Rightarrow> Request \<Rightarrow> error + jsobject" where
  "transformAnthropicTextResponseToOpenAI ToString now anthropicBody req =
     (let totalTokens = orElse (promptTokens req) 0 + orElse (outputTokens req) 0 in
      thenE (optTrim (propOf anthropicBody ''completion'')) (\<lambda>content.
        Inr [(''id'', JStr (''ant-'' @ ToString (propOf anthropicBody ''log_id''))),
             (''object'', JStr ''chat.completion''),
             (''created'', JNum now),
             (''model'', propOf anthropicBody ''model''),
             (''usage'', JObj [(''prompt_tokens'', optNum (promptTokens req)),
                              (''completion_tokens'', optNum (outputTokens req)),
                              (''total_tokens'', JNum totalTokens)]),
             (''choices'', JArr [JObj
                [(''message'', JObj [(''role'', JStr ''assistant''), (''content'', content)]),
                 (''finish_reason'', propOf anthropicBody ''stop_reason''),
                 (''index'', JNum 0)]])]))"

text \<open>
  The callback of \<^verbatim>\<open>content.map\<close>, and \<^verbatim>\<open>join("")\<close>, which writes \<^verbatim>\<open>undefined\<close> and
  \<^verbatim>\<open>null\<close> as the empty string.
\<close>

definition partText :: "jsval \<Rightarrow> error + jsval" where
  "partText part =
     thenE (getProp part ''type'') (\<lambda>t.
       if t = JStr ''text'' then getProp part ''text'' else Inr (JStr []))"

fun mapE :: "('a \<Rightarrow> error + 'b) \<Rightarrow> 'a list \<Rightarrow> error + 'b list" where
  "mapE f [] = Inr []"
| "mapE f (x # xs) = thenE (f x) (\<lambda>y. thenE (mapE f xs) (\<lambda>ys. Inr (y # ys)))"

definition joinEmpty :: "(jsval \<Rightarrow> string) \<Rightarrow> jsval list \<Rightarrow> string" where
  "joinEmpty ToString vs =
     concat (map (\<lambda>v. if v = JUndefined \<or> v = JNull then [] else ToString v) vs)"

definition transformAnthropicChatResponseToAnthropicText ::
  "(jsval \<Rightarrow> string) \<Rightarrow> jsobject \<Rightarrow> Request \<Rightarrow> error + jsobject" where
  "transformAnthropicChatResponseToAnthropicText ToString anthropicBody req =
     (let ident = JStr (''trans-'' @ ToString (propOf anthropicBody ''id'')) in
      thenE (case propOf anthropicBody ''content'' of
               JArr parts \<Rightarrow> mapE partText parts
             | JUndefined \<Rightarrow> Inl (TypeError ''Cannot read properties of undefined (reading 'map')'')
             | JNull \<Rightarrow> Inl (TypeError ''Cannot read properties of null (reading 'map')'')
             | _ \<Rightarrow> Inl (TypeError ''anthropicBody.content.map is not a function''))
        (\<lambda>texts.
          Inr [(''type'', JStr ''completion''),
               (''id'', ident),
               (''completion'', JStr (joinEmpty ToString texts)),
               (''stop_reason'', propOf anthropicBody ''stop_reason''),
               (''stop'', propOf anthropicBody ''stop_sequence''),
               (''model'', propOf anthropicBody ''model''),
               (''usage'', propOf anthropicBody ''usage'')]))"

text \<open>
  \<^verbatim>\<open>anthropicResponseHandler\<close>. The upstream body is a string or an object;
  \<open>promptLogging\<close> is \<^verbatim>\<open>config.promptLogging\<close>. The result is the status and the body
  handed to \<^verbatim>\<open>res.status(200).json\<close>.
\<close>

definition anthropicResponseHandler ::
  "bool \<Rightarrow> (jsval \<Rightarrow> string) \<Rightarrow> int \<Rightarrow> Request \<Rightarrow> string + jsobject \<Rightarrow> error + (nat \<times> jsobject)" where
  "anthropicResponseHandler promptLogging ToString now req upstream =
     (case upstream of
        Inl text \<Rightarrow> Inl (Error ''Expected body to be an object'')
      | Inr body0 \<Rightarrow>
          (let body1 =
                 (if promptLogging
                  then setProp body0 ''proxy_note''
                         (JStr (''Prompts are logged on this proxy instance. See ''
                                @ orElse (host req) ''undefined'' @ '' for more information.''))
                  else body0)
           in thenE (if inboundApi req = Some openai
                     then transformAnthropicTextResponseToOpenAI ToString now body1 req
                     else Inr body1) (\<lambda>body2.
              thenE (if inboundApi req = Some anthropic_text \<and> outboundApi req = Some anthropic_chat
                     then transformAnthropicChatResponseToAnthropicText ToString body2 req
                     else Inr body2) (\<lambda>body3.
                Inr (200, if truthy (tokenizerInfo req)
                          then setProp body3 ''proxy_tokenizer'' (tokenizerInfo req)
                          else body3)))))"

subsection \<open>Preprocessing and routing\<close>

record PreprocessorConfig =
  inApi :: APIFormat
  outApi :: APIFormat
  cfgService :: AIService

type_synonym RequestPreprocessor = "Request \<Rightarrow> error + Request"

fun runAll :: "RequestPreprocessor list \<Rightarrow> RequestPreprocessor" where
  "runAll [] req = Inr req"
| "runAll (f # fs) req = thenE (f req) (runAll fs)"

text \<open>
  Modelled from the spec: \<^verbatim>\<open>createPreprocessorMiddleware\<close> of the module
  \<^verbatim>\<open>./middleware/request\<close> is not among the sources. By the specification a
  preprocessor is a pipeline parameterised by (inApi, outApi, service) that records the
  two dialects and the service in the request and translates the body from the inbound
  to the outbound dialect by a pure function of the body; the hooks of the second
  argument run before and after that translation. \<open>transformBody\<close> stands for the
  validation and translation, which can reject the request. \<open>Inr\<close> is the call of
  \<^verbatim>\<open>next()\<close> with the request as it then is, \<open>Inl\<close> an error answered to the client.
\<close>

definition createPreprocessorMiddleware ::
  "(APIFormat \<Rightarrow> APIFormat \<Rightarrow> jsobject \<Rightarrow> error + jsobject) \<Rightarrow> PreprocessorConfig
     \<Rightarrow> RequestPreprocessor list \<Rightarrow> RequestPreprocessor list \<Rightarrow> RequestPreprocessor" where
  "createPreprocessorMiddleware transformBody cfg beforeTransform afterTransform req =
     thenE (runAll beforeTransform
              (req\<lparr>inboundApi := Some (inApi cfg), outboundApi := Some (outApi cfg),
                   reqService := Some (cfgService cfg)\<rparr>)) (\<lambda>req1.
     thenE (transformBody (inApi cfg) (outApi cfg) (body req1)) (\<lambda>b.
       runAll afterTransform (req1\<lparr>body := b\<rparr>)))"

text \<open>
  The \<^verbatim>\<open>pathFilter\<close> of \<^verbatim>\<open>anthropicProxy\<close>, by which the proxy rewrites the upstream
  path; it lets every request pass. The queue and the dispatch around it are not
  modelled: \<open>anthropicProxy\<close> is the request as the proxy sends it on.
\<close>

definition pathFilter :: "string \<Rightarrow> Request \<Rightarrow> Request" where
  "pathFilter pathname req =
     (let isText = (outboundApi req = Some anthropic_text);
          isChat = (outboundApi req = Some anthropic_chat);
          req1 = (if isChat \<and> pathname = ''/v1/complete'' then req\<lparr>url := ''/v1/messages''\<rparr> else req);
          req2 = (if isText \<and> pathname = ''/v1/chat/completions''
                  then req1\<lparr>url := ''/v1/complete''\<rparr> else req1);
          req3 = (if isChat \<and> pathname = ''/v1/claude-3/complete''
                  then req2\<lparr>url := ''/v1/messages''\<rparr> else req2)
      in req3)"

definition anthropicProxy :: RequestPreprocessor where
  "anthropicProxy req = Inr (pathFilter (url req) req)"

definition nativeTextPreprocessor :: PreprocessorConfig where
  "nativeTextPreprocessor = \<lparr>inApi = anthropic_text, outApi = anthropic_text, cfgService = Anthropic\<rparr>"

definition textToChatPreprocessor :: PreprocessorConfig where
  "textToChatPreprocessor = \<lparr>inApi = anthropic_text, outApi = anthropic_chat, cfgService = Anthropic\<rparr>"

text \<open>
  \<^verbatim>\<open>req.body.model?.startsWith("claude-3")\<close>: \<^verbatim>\<open>undefined\<close>, hence false, without a
  model; a \<^verbatim>\<open>TypeError\<close> for a model that is not a string.
\<close>

definition claudeTextCompletionRouter ::
  "(APIFormat \<Rightarrow> APIFormat \<Rightarrow> jsobject \<Rightarrow> error + jsobject) \<Rightarrow> RequestPreprocessor" where
  "claudeTextCompletionRouter transformBody req =
     (case propOf (body req) ''model'' of
        JStr model \<Rightarrow>
          if prefix ''claude-3'' model
          then createPreprocessorMiddleware transformBody textToChatPreprocessor [] [] req
          else createPreprocessorMiddleware transformBody nativeTextPreprocessor [] [] req
      | JUndefined \<Rightarrow> createPreprocessorMiddleware transformBody nativeTextPreprocessor [] [] req
      | JNull \<Rightarrow> createPreprocessorMiddleware transformBody nativeTextPreprocessor [] [] req
      | _ \<Rightarrow> Inl (TypeError ''req.body.model?.startsWith is not a function''))"

definition maybeReassignModel :: RequestPreprocessor where
  "maybeReassignModel req =
     (case propOf (body req) ''model'' of
        JStr model \<Rightarrow>
          if \<not> prefix ''gpt-'' model then Inr req
          else Inr (req\<lparr>body := setProp (body req) ''model'' (JStr ''claude-2.1'')\<rparr>)
      | JUndefined \<Rightarrow> Inl (TypeError ''Cannot read properties of undefined (reading 'startsWith')'')
      | JNull \<Rightarrow> Inl (TypeError ''Cannot read properties of null (reading 'startsWith')'')
      | _ \<Rightarrow> Inl (TypeError ''model.startsWith is not a function''))"

definition forceClaude3 :: RequestPreprocessor where
  "forceClaude3 req = Inr (req\<lparr>body := setProp (body req) ''model'' (JStr ''claude-3-sonnet-20240229'')\<rparr>)"

text \<open>
  \<^verbatim>\<open>Router()\<close> is created with the default options, under which Express matches the
  path of a route without regard to letter case and with or without one trailing slash
  (for \<^verbatim>\<open>/v1/complete\<close> the pattern \<^verbatim>\<open>/^\/v1\/complete\/?$/i\<close>). The letters of the route
  paths are ASCII, which only the ASCII letters match.
\<close>

definition toLowerASCII :: "char \<Rightarrow> char" where
  "toLowerASCII c =
     (let n = (of_char c :: nat) in if 65 \<le> n \<and> n \<le> 90 then char_of (n + 32) else c)"

definition matchRoute :: "string \<Rightarrow> string \<Rightarrow> bool" where
  "matchRoute route path \<longleftrightarrow>
     (let r = map toLowerASCII route; p = map toLowerASCII path
      in p = r \<or> p = r @ ''/'')"

text \<open>
  The four \<^verbatim>\<open>POST\<close> routes of \<^verbatim>\<open>anthropicRouter\<close>, in the order of their
  registration, each the chain of its handlers. The handlers see the path as the client
  wrote it. Modelled from the spec: \<^verbatim>\<open>ipLimiter\<close>, the IP-based throttle of the module
  \<^verbatim>\<open>./rate-limit\<close>, is not among the sources; it rejects a request or lets it pass as
  it is. A path with no route here is left to the rest of the application (\<open>None\<close>).
\<close>

definition anthropicRouter_post ::
  "(Request \<Rightarrow> error option) \<Rightarrow> (APIFormat \<Rightarrow> APIFormat \<Rightarrow> jsobject \<Rightarrow> error + jsobject)
     \<Rightarrow> Request \<Rightarrow> (error + Request) option" where
  "anthropicRouter_post ipLimiter transformBody req =
     (let limited = (\<lambda>handlers. case ipLimiter req of Some e \<Rightarrow> Inl e | None \<Rightarrow> runAll handlers req) in
      if matchRoute ''/v1/complete'' (url req)
      then Some (limited [claudeTextCompletionRouter transformBody, anthropicProxy])
      else if matchRoute ''/v1/messages'' (url req)
      then Some (limited
             [createPreprocessorMiddleware transformBody
                \<lparr>inApi = anthropic_chat, outApi = anthropic_chat, cfgService = Anthropic\<rparr> [] [],
              anthropicProxy])
      else if matchRoute ''/v1/chat/completions'' (url req)
      then Some (limited
             [createPreprocessorMiddleware transformBody
                \<lparr>inApi = openai, outApi = anthropic_text, cfgService = Anthropic\<rparr>
                [] [maybeReassignModel],
              anthropicProxy])
      else if matchRoute ''/v1/claude-3/complete'' (url req)
      then Some (limited
             [createPreprocessorMiddleware transformBody
                \<lparr>inApi = anthropic_text, outApi = anthropic_chat, cfgService = Anthropic\<rparr>
                [forceClaude3] [],
              anthropicProxy])
      else None)"

section \<open>The streaming transformer\<close>

record SSEResult =
  position :: int
  event :: "jsval option"

text \<open>
  \<^verbatim>\<open>asCompletionEvent\<close>. \<open>JSON_parse\<close> is the language's \<^verbatim>\<open>JSON.parse\<close>, a parameter:
  \<open>None\<close> is its \<^verbatim>\<open>SyntaxError\<close>. \<open>tryCompletionEvent\<close> is the body of the \<^verbatim>\<open>try\<close>
  block; the \<^verbatim>\<open>catch\<close> logs whatever was thrown and the function returns \<^verbatim>\<open>null\<close>.
\<close>

definition tryCompletionEvent :: "(string \<Rightarrow> jsval option) \<Rightarrow> string \<Rightarrow> error + jsval" where
  "tryCompletionEvent JSON_parse ev =
     (case JSON_parse ev of
        None \<Rightarrow> Inl (SyntaxError ''Unexpected token in JSON'')
      | Some parsed \<Rightarrow>
          thenE (getProp parsed ''choices'') (\<lambda>choices.
            if \<not> isArray choices then Inl (Error ''Missing required fields'')
            else thenE (index0 choices) (\<lambda>c.
                 thenE (getProp c ''text'') (\<lambda>t.
                   if truthy t then Inr parsed else Inl (Error ''Missing required fields'')))))"

definition asCompletionEvent :: "(string \<Rightarrow> jsval option) \<Rightarrow> string \<Rightarrow> jsval option" where
  "asCompletionEvent JSON_parse ev =
     (case tryCompletionEvent JSON_parse ev of Inl error \<Rightarrow> None | Inr parsed \<Rightarrow> Some parsed)"

text \<open>\<^verbatim>\<open>completionEvent.choices[0].n\<close>.\<close>

definition choice0 :: "jsval \<Rightarrow> string \<Rightarrow> error + jsval" where
  "choice0 completionEvent n =
     thenE (getProp completionEvent ''choices'') (\<lambda>choices.
       thenE (index0 choices) (\<lambda>c. getProp c n))"

text \<open>
  \<^verbatim>\<open>openAITextToOpenAIChat\<close>. \<open>parseEvent\<close> is the function of the module
  \<^verbatim>\<open>../parse-sse\<close>, which is not among the sources, and is a parameter: it throws, or
  it returns a message whose \<^verbatim>\<open>data\<close> is a string or absent.
\<close>

definition openAITextToOpenAIChat ::
  "(string \<Rightarrow> error + string option) \<Rightarrow> (string \<Rightarrow> jsval option) \<Rightarrow> string \<Rightarrow> error + SSEResult" where
  "openAITextToOpenAIChat parseEvent JSON_parse data =
     thenE (parseEvent data) (\<lambda>rawEvent_data.
       case rawEvent_data of
         None \<Rightarrow> Inr \<lparr>position = - 1, event = None\<rparr>
       | Some d \<Rightarrow>
           if d = [] \<or> d = ''[DONE]'' then Inr \<lparr>position = - 1, event = None\<rparr>
           else
             (case asCompletionEvent JSON_parse d of
                None \<Rightarrow> Inr \<lparr>position = - 1, event = None\<rparr>
              | Some completionEvent \<Rightarrow>
                  thenE (getProp completionEvent ''id'') (\<lambda>ident.
                  thenE (getProp completionEvent ''created'') (\<lambda>created.
                  thenE (getProp completionEvent ''model'') (\<lambda>model.
                  thenE (choice0 completionEvent ''index'') (\<lambda>idx.
                  thenE (choice0 completionEvent ''text'') (\<lambda>txt.
                  thenE (choice0 completionEvent ''finish_reason'') (\<lambda>finish_reason.
                    Inr \<lparr>position = - 1,
                         event = Some (JObj
                           [(''id'', ident),
                            (''object'', JStr ''chat.completion.chunk''),
                            (''created'', created),
                            (''model'', model),
                            (''choices'', JArr [JObj
                               [(''index'', idx),
                                (''delta'', JObj [(''content'', txt)]),
                                (''finish_reason'', finish_reason)]])])\<rparr>))))))))"

section \<open>Notions of the specification and further sample data\<close>

text \<open>
  "The stored record for \<open>k\<close>": the record the provider finds under the hash of \<open>k\<close>,
  as its own methods look keys up.
\<close>

definition storedRecord :: "GoogleAIKey list \<Rightarrow> GoogleAIKey \<Rightarrow> GoogleAIKey option" where
  "storedRecord keys k = find (\<lambda>k'. hash k' = hash k) keys"

text \<open>
  Two keys that were both rate limited less than two seconds before 10000; the second
  was limited first, and its window ends after the reuse delay would.
\<close>

definition throttledKeys :: "GoogleAIKey list" where
  "throttledKeys =
     [(sampleKey ''a'')\<lparr>rateLimitedAt := 9500, rateLimitedUntil := 11500\<rparr>,
      (sampleKey ''b'')\<lparr>rateLimitedAt := 9000, rateLimitedUntil := 11000\<rparr>]"

text \<open>A run from a fresh provider, and an update that moves the start of the window.\<close>

definition sampleCalls :: "call list" where
  "sampleCalls =
     [Get ''gemini-pro'' 10000 10001,
      MarkRateLimited ''plm-a'' 10100,
      Get ''gemini-pro'' 10200 10200,
      IncrementUsage ''plm-b'' ''gemini-pro'' 42,
      Update ''plm-a'' (emptyPatch\<lparr>p_modelFamilies := Some [GeminiPro, GeminiFlash]\<rparr>) 10300,
      Disable (sampleKey ''b''),
      Get ''gemini-flash'' 10400 10400]"

definition windowPatch :: GoogleAIKeyPatch where
  "windowPatch = emptyPatch\<lparr>p_rateLimitedAt := Some 5000\<rparr>"

text \<open>
  Two enabled keys: the first serves gemini-pro and is rate limited until 11500, the
  second was found by the checker to serve gemini-ultra only and is free.
\<close>

definition lockoutKeys :: "GoogleAIKey list" where
  "lockoutKeys =
     [(sampleKey ''a'')\<lparr>rateLimitedAt := 9500, rateLimitedUntil := 11500\<rparr>,
      (sampleKey ''b'')\<lparr>modelFamilies := [GeminiUltra]\<rparr>]"

text \<open>A stand-in for a provider's \<^verbatim>\<open>get\<close>: the key it hands out names the provider.\<close>

definition sampleProviderGet :: "string \<Rightarrow> string \<Rightarrow> error + string" where
  "sampleProviderGet tag model = Inr (tag @ '' key for '' @ model)"

text \<open>
  A stand-in for \<open>ToString\<close> that agrees with the language on strings, \<^verbatim>\<open>undefined\<close>,
  \<^verbatim>\<open>null\<close> and the booleans; a request of an OpenAI client with its token estimates;
  and a text completion as Anthropic sends it, with its leading space.
\<close>

fun sampleToString :: "jsval \<Rightarrow> string" where
  "sampleToString (JStr s) = s"
| "sampleToString JUndefined = ''undefined''"
| "sampleToString JNull = ''null''"
| "sampleToString (JBool b) = (if b then ''true'' else ''false'')"
| "sampleToString v = ''[object Object]''"

definition sampleRequest :: Request where
  "sampleRequest =
     \<lparr>url = ''/v1/chat/completions'',
      body = [(''model'', JStr ''claude-2''), (''prompt'', JStr ''Human: hi Assistant:'')],
      inboundApi = Some openai, outboundApi = Some anthropic_text, reqService = Some Anthropic,
      promptTokens = Some 12, outputTokens = Some 5, tokenizerInfo = JUndefined,
      host = Some ''proxy.example''\<rparr>"

definition sampleCompletion :: jsobject where
  "sampleCompletion =
     [(''completion'', JStr '' Hello there.''),
      (''stop_reason'', JStr ''stop_sequence''),
      (''model'', JStr ''claude-2''),
      (''log_id'', JStr ''abc123'')]"

text \<open>
  Stand-ins for the two absent collaborators of a route: a limiter that lets every
  request pass, and a translation that leaves the body as it is.
\<close>

definition sampleLimiter :: "Request \<Rightarrow> error option" where
  "sampleLimiter req = None"

definition sampleTransform :: "APIFormat \<Rightarrow> APIFormat \<Rightarrow> jsobject \<Rightarrow> error + jsobject" where
  "sampleTransform inFormat outFormat b = Inr b"

definition sampleTextRequest :: "string \<Rightarrow> Request" where
  "sampleTextRequest model =
     \<lparr>url = ''/v1/complete'',
      body = [(''model'', JStr model), (''prompt'', JStr ''Human: hi Assistant:'')],
      inboundApi = None, outboundApi = None, reqService = None,
      promptTokens = None, outputTokens = None, tokenizerInfo = JUndefined,
      host = Some ''proxy.example''\<rparr>"

text \<open>The text request of a client that writes the path with a trailing slash.\<close>

definition sampleSlashRequest :: "string \<Rightarrow> Request" where
  "sampleSlashRequest model = (sampleTextRequest model)\<lparr>url := ''/v1/complete/''\<rparr>"

definition sampleChatRequest :: "string \<Rightarrow> Request" where
  "sampleChatRequest model =
     \<lparr>url = ''/v1/chat/completions'',
      body = [(''model'', JStr model), (''messages'', JArr [])],
      inboundApi = None, outboundApi = None, reqService = None,
      promptTokens = None, outputTokens = None, tokenizerInfo = JUndefined,
      host = Some ''proxy.example''\<rparr>"

text \<open>
  A recognised text-completion event, in the words of the type
  \<^verbatim>\<open>OpenAITextCompletionStreamEvent\<close>: a parsed object whose \<^verbatim>\<open>choices\<close> is an array
  that starts with an object with a non-empty (truthy) \<^verbatim>\<open>text\<close>; and the chat chunk
  made from it. Everything else is unrecognised.
\<close>

fun chatChunk :: "jsval option \<Rightarrow> jsval option" where
  "chatChunk (Some (JObj fs)) =
     (case propOf fs ''choices'' of
        JArr (JObj c # cs) \<Rightarrow>
          if truthy (propOf c ''text'')
          then Some (JObj
                 [(''id'', propOf fs ''id''),
                  (''object'', JStr ''chat.completion.chunk''),
                  (''created'', propOf fs ''created''),
                  (''model'', propOf fs ''model''),
                  (''choices'', JArr [JObj
                     [(''index'', propOf c ''index''),
                      (''delta'', JObj [(''content'', propOf c ''text'')]),
                      (''finish_reason'', propOf c ''finish_reason'')]])])
          else None
      | _ \<Rightarrow> None)"
| "chatChunk _ = None"

text \<open>
  A digest that agrees with SHA-256 on the first eight hexadecimal digits for the keys
  \<^verbatim>\<open>k153629\<close> and \<^verbatim>\<open>k164064\<close>, which are \<^verbatim>\<open>caaf373a\<close> for both; the provider built
  from these two keys; and that provider after a first selection at time 10000.
\<close>

definition collidingDigest :: "string \<Rightarrow> string" where
  "collidingDigest k =
     (if k = ''k153629'' \<or> k = ''k164064'' then ''caaf373a'' else sampleDigest k)"

definition collidingKeys :: "GoogleAIKey list" where
  "collidingKeys = GoogleAIKeyProvider collidingDigest (Some ''k153629,k164064'')"

definition collidingKeysUsed :: "GoogleAIKey list" where
  "collidingKeysUsed = perform sampleFamily collidingKeys (Get ''gemini-pro'' 10000 10000)"

section \<open>Properties of the helpers\<close>

lemma findIndex_Some_iff:
  "findIndex P xs = Some i \<longleftrightarrow> i < length xs \<and> P (xs ! i) \<and> (\<forall>j<i. \<not> P (xs ! j))"
proof (induction xs arbitrary: i)
  case Nil
  show ?case by simp
next
  case (Cons x xs)
  show ?case
  proof (cases "P x")
    case True
    then show ?thesis by (cases i) auto
  next
    case False
    show ?thesis
    proof (cases i)
      case 0
      with False show ?thesis by auto
    next
      case (Suc n)
      have "(\<forall>j<Suc n. \<not> P ((x # xs) ! j)) \<longleftrightarrow> (\<forall>j<n. \<not> P (xs ! j))"
        using False by (auto simp: less_Suc_eq_0_disj)
      with False Suc Cons.IH [of n] show ?thesis by auto
    qed
  qed
qed

lemma findIndex_None_iff: "findIndex P xs = None \<longleftrightarrow> (\<forall>x\<in>set xs. \<not> P x)"
  by (induction xs) auto

lemma set_insertBy: "set (insertBy cmp x xs) = insert x (set xs)"
  by (induction xs) auto

lemma set_sortBy: "set (sortBy cmp xs) = set xs"
  by (induction xs) (auto simp: set_insertBy)

lemma length_insertBy: "length (insertBy cmp x xs) = Suc (length xs)"
  by (induction xs) auto

lemma length_sortBy: "length (sortBy cmp xs) = length xs"
  by (induction xs) (auto simp: length_insertBy)

lemma set_availableKeys:
  "set (availableKeys f keys) = {i. i < length keys \<and> eligible f (keys ! i)}"
  by (auto simp: availableKeys_def)

lemma availableKeys_empty_iff:
  "availableKeys f keys = [] \<longleftrightarrow> filter (eligible f) keys = []"
proof -
  have "availableKeys f keys = [] \<longleftrightarrow> set (availableKeys f keys) = {}"
    by simp
  also have "\<dots> \<longleftrightarrow> (\<forall>k\<in>set keys. \<not> eligible f k)"
    unfolding set_availableKeys by (auto simp: in_set_conv_nth dest: nth_mem)
  also have "\<dots> \<longleftrightarrow> filter (eligible f) keys = []"
    by (simp add: filter_empty_conv)
  finally show ?thesis .
qed

lemma set_keysByPriority:
  "set (keysByPriority f now keys) = {i. i < length keys \<and> eligible f (keys ! i)}"
  by (simp add: keysByPriority_def set_sortBy set_availableKeys)

lemma keysByPriority_empty_iff:
  "keysByPriority f now keys = [] \<longleftrightarrow> availableKeys f keys = []"
  using length_sortBy [of "\<lambda>i j. compareKeys now (keys ! i) (keys ! j)" "availableKeys f keys"]
  by (auto simp: keysByPriority_def)

text \<open>
  The comparator is a total preorder, and agrees with the ranking of the specification:
  \<open>a\<close> sorts strictly before \<open>b\<close> exactly when \<open>a\<close> ranks higher.
\<close>

lemma compareKeys_le:
  "compareKeys now a b \<le> 0 \<longleftrightarrow>
     (if lockedOut now a \<and> \<not> lockedOut now b then False
      else if \<not> lockedOut now a \<and> lockedOut now b then True
      else if lockedOut now a \<and> lockedOut now b then rateLimitedAt a \<le> rateLimitedAt b
      else lastUsed a \<le> lastUsed b)"
  by (simp add: compareKeys_def lockedOut_def Let_def)

lemma compareKeys_total: "compareKeys now a b \<le> 0 \<or> compareKeys now b a \<le> 0"
  unfolding compareKeys_le
  by (cases "lockedOut now a"; cases "lockedOut now b"; simp; linarith)

lemma compareKeys_trans:
  "compareKeys now a b \<le> 0 \<Longrightarrow> compareKeys now b c \<le> 0 \<Longrightarrow> compareKeys now a c \<le> 0"
  unfolding compareKeys_le
  by (cases "lockedOut now a"; cases "lockedOut now b"; cases "lockedOut now c"; simp)

lemma compareKeys_le_iff: "compareKeys now a b \<le> 0 \<longleftrightarrow> \<not> ranksHigher now b a"
  unfolding compareKeys_le ranksHigher_def
  by (cases "lockedOut now a"; cases "lockedOut now b"; simp; linarith)

lemma compareKeys_less_iff: "compareKeys now a b < 0 \<longleftrightarrow> ranksHigher now a b"
  by (simp add: compareKeys_def ranksHigher_def lockedOut_def Let_def)

text \<open>
  The head of a stably sorted list is a least element, and every element in front of it
  in the unsorted list is strictly greater.
\<close>

lemma sortBy_head:
  assumes total: "\<And>a b. cmp a b \<le> 0 \<or> cmp b a \<le> 0"
    and trans: "\<And>a b c. cmp a b \<le> 0 \<Longrightarrow> cmp b c \<le> 0 \<Longrightarrow> cmp a c \<le> 0"
  shows "sortBy cmp xs = h # rest \<Longrightarrow>
    \<exists>us vs. xs = us @ h # vs \<and> (\<forall>u\<in>set us. \<not> cmp u h \<le> 0) \<and> (\<forall>v\<in>set xs. cmp h v \<le> 0)"
proof (induction xs arbitrary: h rest)
  case Nil
  then show ?case by simp
next
  case (Cons x xs)
  have refl: "cmp x x \<le> 0"
    using total [of x x] by simp
  show ?case
  proof (cases "sortBy cmp xs")
    case Nil
    then have "xs = []"
      using length_sortBy [of cmp xs] by simp
    with Cons.prems have "h = x" by simp
    with \<open>xs = []\<close> refl show ?thesis
      by (intro exI [of _ "[]"]) simp
  next
    case sorted: (Cons y ys)
    from Cons.IH [OF sorted] obtain us vs where
      xs: "xs = us @ y # vs" and us: "\<forall>u\<in>set us. \<not> cmp u y \<le> 0"
      and all: "\<forall>v\<in>set xs. cmp y v \<le> 0"
      by blast
    show ?thesis
    proof (cases "cmp x y \<le> 0")
      case True
      with sorted Cons.prems have h: "h = x" by simp
      have "cmp x v \<le> 0" if "v \<in> set xs" for v
        using trans [OF True] all that by blast
      with refl have "\<forall>v\<in>set (x # xs). cmp x v \<le> 0" by simp
      with h show ?thesis
        by (intro exI [of _ "[]"] exI [of _ xs]) simp
    next
      case False
      with sorted Cons.prems have h: "h = y" by simp
      have "cmp y x \<le> 0"
        using total [of x y] False by simp
      with all have "\<forall>v\<in>set (x # xs). cmp y v \<le> 0" by simp
      moreover have "\<forall>u\<in>set (x # us). \<not> cmp u y \<le> 0" using us False by simp
      ultimately show ?thesis
        unfolding h using xs by (intro exI [of _ "x # us"] exI [of _ vs]) simp
    qed
  qed
qed

lemma availableKeys_split:
  assumes "availableKeys f keys = us @ h # vs"
  shows "set us = {i. i < h \<and> i < length keys \<and> eligible f (keys ! i)}"
proof -
  have "sorted_wrt (<) (us @ h # vs)"
    unfolding assms [symmetric] availableKeys_def
    by (rule sorted_wrt_filter) (rule sorted_wrt_upt)
  then have lt: "\<forall>u\<in>set us. u < h" and gt: "\<forall>v\<in>set vs. h < v"
    by (auto simp: sorted_wrt_append)
  have mem: "set us \<union> {h} \<union> set vs = {i. i < length keys \<and> eligible f (keys ! i)}"
    using set_availableKeys [of f keys] unfolding assms by auto
  show ?thesis
  proof (intro set_eqI iffI)
    fix i assume "i \<in> set us"
    with lt mem show "i \<in> {i. i < h \<and> i < length keys \<and> eligible f (keys ! i)}" by auto
  next
    fix i assume "i \<in> {i. i < h \<and> i < length keys \<and> eligible f (keys ! i)}"
    then have "i < h" "i \<in> set us \<union> {h} \<union> set vs" using mem by auto
    with gt show "i \<in> set us" by auto
  qed
qed

lemma keysByPriority_head:
  assumes "keysByPriority f now keys = s # rest"
  shows "s < length keys \<and> eligible f (keys ! s)
    \<and> (\<forall>i<length keys. eligible f (keys ! i) \<longrightarrow> \<not> ranksHigher now (keys ! i) (keys ! s))
    \<and> (\<forall>i<s. eligible f (keys ! i) \<longrightarrow> ranksHigher now (keys ! s) (keys ! i))"
proof -
  let ?cmp = "\<lambda>i j. compareKeys now (keys ! i) (keys ! j)"
  have "s \<in> set (keysByPriority f now keys)" using assms by simp
  then have s: "s < length keys" "eligible f (keys ! s)"
    by (simp_all add: set_keysByPriority)
  have "sortBy ?cmp (availableKeys f keys) = s # rest"
    using assms by (simp add: keysByPriority_def)
  have "\<exists>us vs. availableKeys f keys = us @ s # vs \<and> (\<forall>u\<in>set us. \<not> ?cmp u s \<le> 0)
      \<and> (\<forall>v\<in>set (availableKeys f keys). ?cmp s v \<le> 0)"
  proof (rule sortBy_head [of ?cmp])
    show "?cmp a b \<le> 0 \<or> ?cmp b a \<le> 0" for a b
      by (rule compareKeys_total)
    show "?cmp a b \<le> 0 \<Longrightarrow> ?cmp b c \<le> 0 \<Longrightarrow> ?cmp a c \<le> 0" for a b c
      by (rule compareKeys_trans)
    show "sortBy ?cmp (availableKeys f keys) = s # rest" by fact
  qed
  then obtain us vs where
    split: "availableKeys f keys = us @ s # vs"
    and us: "\<forall>u\<in>set us. \<not> ?cmp u s \<le> 0"
    and all: "\<forall>v\<in>set (availableKeys f keys). ?cmp s v \<le> 0"
    by blast
  have a: "\<forall>i<length keys. eligible f (keys ! i) \<longrightarrow> \<not> ranksHigher now (keys ! i) (keys ! s)"
    using all by (simp add: set_availableKeys compareKeys_le_iff)
  have b: "\<forall>i<s. eligible f (keys ! i) \<longrightarrow> ranksHigher now (keys ! s) (keys ! i)"
  proof (intro allI impI)
    fix i assume "i < s" "eligible f (keys ! i)"
    with s have "i \<in> set us"
      by (simp add: availableKeys_split [OF split])
    with us show "ranksHigher now (keys ! s) (keys ! i)"
      by (simp add: compareKeys_le_iff)
  qed
  from s a b show ?thesis by blast
qed



lemma throttle_find:
  assumes "i < length keys"
  shows "\<exists>j. findIndex (\<lambda>k. hash k = hash (keys ! i)) keys = Some j \<and> j \<le> i
            \<and> hash (keys ! j) = hash (keys ! i)"
proof (cases "findIndex (\<lambda>k. hash k = hash (keys ! i)) keys")
  case None
  with assms show ?thesis
    by (auto simp: findIndex_None_iff)
next
  case (Some j)
  then have "j < length keys" "hash (keys ! j) = hash (keys ! i)"
    and least: "\<forall>l<j. hash (keys ! l) \<noteq> hash (keys ! i)"
    by (auto simp: findIndex_Some_iff)
  have "j \<le> i"
  proof (rule ccontr)
    assume "\<not> j \<le> i"
    then have "i < j" by simp
    with least show False by blast
  qed
  with Some \<open>hash (keys ! j) = hash (keys ! i)\<close> show ?thesis by simp
qed

text \<open>
  What \<^verbatim>\<open>get\<close> computes, spelled out: it throws exactly when no key passes the
  filter, and otherwise the record at the head of \<^verbatim>\<open>keysByPriority\<close> gets its
  \<^verbatim>\<open>lastUsed\<close> written, the first record bearing the same hash is throttled, and
  the selected record is returned as it then stands.
\<close>

lemma get_unfold:
  "get fam now tnow model keys =
     (case keysByPriority (fam model) now keys of
        [] \<Rightarrow> Inl (PaymentRequiredError ''No Google AI keys available'')
      | s # _ \<Rightarrow>
          (let keys1 = keys[s := (keys ! s)\<lparr>lastUsed := now\<rparr>];
               j = the (findIndex (\<lambda>k. hash k = hash (keys ! s)) keys1);
               keys2 = keys1[j := (keys1 ! j)\<lparr>rateLimitedAt := tnow,
                  rateLimitedUntil := max (rateLimitedUntil (keys1 ! j)) (tnow + KEY_REUSE_DELAY)\<rparr>]
           in Inr (keys2 ! s, keys2)))"
proof (cases "keysByPriority (fam model) now keys")
  case Nil
  moreover from Nil have "availableKeys (fam model) keys = []"
    by (simp add: keysByPriority_empty_iff)
  ultimately show ?thesis
    by (simp add: get_def)
next
  case (Cons s rest)
  then have "s \<in> set (keysByPriority (fam model) now keys)" by simp
  then have s: "s < length keys"
    by (simp add: set_keysByPriority)
  define keys1 where "keys1 = keys[s := (keys ! s)\<lparr>lastUsed := now\<rparr>]"
  have s1: "s < length keys1" and h1: "hash (keys1 ! s) = hash (keys ! s)"
    using s by (simp_all add: keys1_def)
  from throttle_find [OF s1] obtain j
    where j: "findIndex (\<lambda>k. hash k = hash (keys ! s)) keys1 = Some j"
    by (auto simp: h1)
  have ne: "availableKeys (fam model) keys \<noteq> []"
    using Cons keysByPriority_empty_iff [of "fam model" now keys] by auto
  show ?thesis
    using Cons ne j h1
    by (simp add: get_def Let_def thenE_def throttle_def keys1_def [symmetric])
qed

section \<open>Selection never yields an unusable key\<close>

text \<open>
  Claim C1. For every model string, \<^verbatim>\<open>get(model)\<close> fails exactly when no key of the
  provider is both enabled and capable of the family the model needs, and the failure
  is the \<^verbatim>\<open>PaymentRequiredError\<close> "No Google AI keys available"; when it returns, the
  key it returns is enabled and its \<^verbatim>\<open>modelFamilies\<close> contains that family.
\<close>

theorem get_never_returns_ineligible:
  "(case get fam now tnow model keys of
      Inl e \<Rightarrow> e = PaymentRequiredError ''No Google AI keys available''
               \<and> filter (eligible (fam model)) keys = []
    | Inr (k, keys') \<Rightarrow>
        \<not> isDisabled k \<and> fam model \<in> set (modelFamilies k)
        \<and> filter (eligible (fam model)) keys \<noteq> [])"
proof (cases "keysByPriority (fam model) now keys")
  case Nil
  then have "filter (eligible (fam model)) keys = []"
    by (simp add: keysByPriority_empty_iff availableKeys_empty_iff)
  with Nil show ?thesis
    by (simp add: get_unfold)
next
  case (Cons s rest)
  then have "s \<in> set (keysByPriority (fam model) now keys)" by simp
  then have s: "s < length keys" and el: "eligible (fam model) (keys ! s)"
    by (simp_all add: set_keysByPriority)
  have ne: "filter (eligible (fam model)) keys \<noteq> []"
    using Cons keysByPriority_empty_iff [of "fam model" now keys]
      availableKeys_empty_iff [of "fam model" keys] by auto
  define keys1 where "keys1 = keys[s := (keys ! s)\<lparr>lastUsed := now\<rparr>]"
  define j where "j = the (findIndex (\<lambda>k. hash k = hash (keys ! s)) keys1)"
  define keys2 where "keys2 = keys1[j := (keys1 ! j)\<lparr>rateLimitedAt := tnow,
    rateLimitedUntil := max (rateLimitedUntil (keys1 ! j)) (tnow + KEY_REUSE_DELAY)\<rparr>]"
  have r: "get fam now tnow model keys = Inr (keys2 ! s, keys2)"
    using Cons by (simp add: get_unfold Let_def keys1_def j_def keys2_def)
  have k1: "isDisabled (keys1 ! s) = isDisabled (keys ! s)"
    "modelFamilies (keys1 ! s) = modelFamilies (keys ! s)"
    using s by (simp_all add: keys1_def)
  have s1: "s < length keys1" using s by (simp add: keys1_def)
  have k2: "isDisabled (keys2 ! s) = isDisabled (keys1 ! s)"
    "modelFamilies (keys2 ! s) = modelFamilies (keys1 ! s)"
    using s1 by (cases "j = s"; simp add: keys2_def)+
  from el k1 k2 ne show ?thesis
    by (simp add: r eligible_def)
qed

section \<open>Selection follows the ranking\<close>

text \<open>
  Claim C2. \<^verbatim>\<open>get(model)\<close> returns the highest-ranked eligible key, where a key that is
  not locked out (\<^verbatim>\<open>now - rateLimitedAt >= RATE_LIMIT_LOCKOUT\<close>, 2000 ms) beats a
  locked-out one, of two locked-out keys the one with the earlier \<^verbatim>\<open>rateLimitedAt\<close>
  ranks higher, and otherwise the one with the smaller \<^verbatim>\<open>lastUsed\<close> ranks higher: the
  returned key is the record at some position \<open>s\<close> of the provider, no eligible key
  ranks higher than the record that stood there, and that record ranks higher than
  every eligible key in front of it (ties go to the first).
\<close>

theorem get_returns_highest_ranked:
  assumes "get fam now tnow model keys = Inr (k, keys')"
  shows "RATE_LIMIT_LOCKOUT = 2000 \<and>
    (\<exists>s<length keys. eligible (fam model) (keys ! s)
       \<and> k = keys' ! s \<and> key k = key (keys ! s) \<and> hash k = hash (keys ! s)
       \<and> (\<forall>i<length keys. eligible (fam model) (keys ! i)
             \<longrightarrow> \<not> ranksHigher now (keys ! i) (keys ! s))
       \<and> (\<forall>i<s. eligible (fam model) (keys ! i) \<longrightarrow> ranksHigher now (keys ! s) (keys ! i)))"
proof (cases "keysByPriority (fam model) now keys")
  case Nil
  with assms show ?thesis by (simp add: get_unfold)
next
  case (Cons s rest)
  note head = keysByPriority_head [OF Cons]
  then have s: "s < length keys" by simp
  define keys1 where "keys1 = keys[s := (keys ! s)\<lparr>lastUsed := now\<rparr>]"
  define j where "j = the (findIndex (\<lambda>k. hash k = hash (keys ! s)) keys1)"
  define keys2 where "keys2 = keys1[j := (keys1 ! j)\<lparr>rateLimitedAt := tnow,
    rateLimitedUntil := max (rateLimitedUntil (keys1 ! j)) (tnow + KEY_REUSE_DELAY)\<rparr>]"
  have "get fam now tnow model keys = Inr (keys2 ! s, keys2)"
    using Cons by (simp add: get_unfold Let_def keys1_def j_def keys2_def)
  then have "k = keys2 ! s \<and> keys' = keys2"
    unfolding assms by (simp only: sum.inject prod.inject)
  then have k: "k = keys2 ! s" and keys': "keys' = keys2" by blast+
  have k1: "key (keys1 ! s) = key (keys ! s)" "hash (keys1 ! s) = hash (keys ! s)"
    using s by (simp_all add: keys1_def)
  have s1: "s < length keys1" using s by (simp add: keys1_def)
  have k2: "key (keys2 ! s) = key (keys1 ! s)" "hash (keys2 ! s) = hash (keys1 ! s)"
    using s1 by (cases "j = s"; simp add: keys2_def)+
  have "eligible (fam model) (keys ! s) \<and> k = keys' ! s \<and> key k = key (keys ! s)
      \<and> hash k = hash (keys ! s)
      \<and> (\<forall>i<length keys. eligible (fam model) (keys ! i)
            \<longrightarrow> \<not> ranksHigher now (keys ! i) (keys ! s))
      \<and> (\<forall>i<s. eligible (fam model) (keys ! i) \<longrightarrow> ranksHigher now (keys ! s) (keys ! i))"
    using head k keys' k1 k2 by simp
  with s show ?thesis
    by (auto simp: RATE_LIMIT_LOCKOUT_def)
qed


theorem get_returns_highest_ranked_witness:
  "get sampleFamily 10000 10001 ''gemini-pro'' rankedKeys
     = Inr ((sampleKey ''d'')\<lparr>lastUsed := 10000, rateLimitedAt := 10001, rateLimitedUntil := 10501\<rparr>,
            rankedKeys[3 := (sampleKey ''d'')\<lparr>lastUsed := 10000, rateLimitedAt := 10001,
                              rateLimitedUntil := 10501\<rparr>])
   \<and> (\<exists>s<length rankedKeys. eligible (sampleFamily ''gemini-pro'') (rankedKeys ! s)
         \<and> key (rankedKeys ! s) = ''d'')"
proof -
  have run: "get sampleFamily 10000 10001 ''gemini-pro'' rankedKeys
     = Inr ((sampleKey ''d'')\<lparr>lastUsed := 10000, rateLimitedAt := 10001, rateLimitedUntil := 10501\<rparr>,
            rankedKeys[3 := (sampleKey ''d'')\<lparr>lastUsed := 10000, rateLimitedAt := 10001,
                              rateLimitedUntil := 10501\<rparr>])"
    by code_simp
  have "key ((sampleKey ''d'')\<lparr>lastUsed := 10000, rateLimitedAt := 10001, rateLimitedUntil := 10501\<rparr>) = ''d''"
    by (simp add: sampleKey_def newKey_def)
  with get_returns_highest_ranked [OF run] run show ?thesis
    by auto
qed

section \<open>The writes of a selection\<close>

lemma get_Inr:
  assumes "get fam now tnow model keys = Inr (k, keys')"
  obtains s j where "s < length keys" "eligible (fam model) (keys ! s)"
    "j \<le> s" "hash (keys ! j) = hash (keys ! s)"
    "keys' = (keys[s := (keys ! s)\<lparr>lastUsed := now\<rparr>])
       [j := ((keys[s := (keys ! s)\<lparr>lastUsed := now\<rparr>]) ! j)\<lparr>rateLimitedAt := tnow,
          rateLimitedUntil := max (rateLimitedUntil ((keys[s := (keys ! s)\<lparr>lastUsed := now\<rparr>]) ! j))
                                  (tnow + KEY_REUSE_DELAY)\<rparr>]"
    "k = keys' ! s"
proof (cases "keysByPriority (fam model) now keys")
  case Nil
  with assms show ?thesis by (simp add: get_unfold)
next
  case (Cons s rest)
  then have "s \<in> set (keysByPriority (fam model) now keys)" by simp
  then have s: "s < length keys" and el: "eligible (fam model) (keys ! s)"
    by (simp_all add: set_keysByPriority)
  define keys1 where "keys1 = keys[s := (keys ! s)\<lparr>lastUsed := now\<rparr>]"
  have s1: "s < length keys1" and h1: "hash (keys1 ! s) = hash (keys ! s)"
    using s by (simp_all add: keys1_def)
  from throttle_find [OF s1] obtain j
    where j: "findIndex (\<lambda>k. hash k = hash (keys ! s)) keys1 = Some j" "j \<le> s"
      "hash (keys1 ! j) = hash (keys ! s)"
    by (auto simp: h1)
  have hj: "hash (keys ! j) = hash (keys ! s)"
    using j(3) s by (cases "j = s") (simp_all add: keys1_def)
  define keys2 where "keys2 = keys1[j := (keys1 ! j)\<lparr>rateLimitedAt := tnow,
    rateLimitedUntil := max (rateLimitedUntil (keys1 ! j)) (tnow + KEY_REUSE_DELAY)\<rparr>]"
  have "get fam now tnow model keys = Inr (keys2 ! s, keys2)"
    using Cons j(1) by (simp add: get_unfold Let_def keys1_def keys2_def)
  then have "k = keys2 ! s \<and> keys' = keys2"
    unfolding assms by (simp only: sum.inject prod.inject)
  then have "k = keys' ! s" "keys' = keys2" by blast+
  with s el j(2) hj show ?thesis
    using that [of s j] by (simp add: keys2_def keys1_def)
qed

lemma get_writes:
  assumes "distinct (map hash keys)"
    and "get fam now tnow model keys = Inr (k, keys')"
  shows "\<exists>s<length keys. hash (keys ! s) = hash k
      \<and> keys' = keys[s := (keys ! s)\<lparr>lastUsed := now, rateLimitedAt := tnow,
           rateLimitedUntil := max (rateLimitedUntil (keys ! s)) (tnow + KEY_REUSE_DELAY)\<rparr>]
      \<and> k = keys' ! s"
proof -
  from assms(2) obtain s j where s: "s < length keys" and js: "j \<le> s"
    and h: "hash (keys ! j) = hash (keys ! s)"
    and keys': "keys' = (keys[s := (keys ! s)\<lparr>lastUsed := now\<rparr>])
       [j := ((keys[s := (keys ! s)\<lparr>lastUsed := now\<rparr>]) ! j)\<lparr>rateLimitedAt := tnow,
          rateLimitedUntil := max (rateLimitedUntil ((keys[s := (keys ! s)\<lparr>lastUsed := now\<rparr>]) ! j))
                                  (tnow + KEY_REUSE_DELAY)\<rparr>]"
    and k: "k = keys' ! s"
    by (rule get_Inr)
  have "map hash keys ! j = map hash keys ! s"
    using h s js by simp
  moreover have "j < length (map hash keys)" "s < length (map hash keys)"
    using s js by simp_all
  ultimately have "j = s"
    using assms(1) by (simp only: nth_eq_iff_index_eq)
  with keys' s have eq: "keys' = keys[s := (keys ! s)\<lparr>lastUsed := now, rateLimitedAt := tnow,
           rateLimitedUntil := max (rateLimitedUntil (keys ! s)) (tnow + KEY_REUSE_DELAY)\<rparr>]"
    by simp
  with k s have "hash (keys ! s) = hash k" by simp
  with s eq k show ?thesis by blast
qed

lemma find_findIndex: "find P xs = map_option (nth xs) (findIndex P xs)"
  by (induction xs) (auto simp: option.map_comp comp_def)

lemma storedRecord_distinct:
  assumes "distinct (map hash keys)" and "s < length keys" and "hash (keys ! s) = hash k"
  shows "storedRecord keys k = Some (keys ! s)"
proof -
  have "\<not> hash (keys ! j) = hash k" if "j < s" for j
  proof
    assume "hash (keys ! j) = hash k"
    with assms(3) have "map hash keys ! j = map hash keys ! s"
      using that assms(2) by simp
    moreover have "j < length (map hash keys)" "s < length (map hash keys)"
      using that assms(2) by simp_all
    ultimately have "j = s"
      using assms(1) by (simp only: nth_eq_iff_index_eq)
    with that show False by simp
  qed
  with assms(2,3) have "findIndex (\<lambda>k'. hash k' = hash k) keys = Some s"
    by (simp add: findIndex_Some_iff)
  then show ?thesis
    by (simp add: storedRecord_def find_findIndex)
qed

text \<open>
  Claim C5, as amended. Immediately after \<^verbatim>\<open>get\<close> returns a key \<open>k\<close>, in a provider
  whose key hashes are unique, the stored record for \<open>k\<close> has \<^verbatim>\<open>lastUsed = now\<close>, the
  value of the clock read in \<^verbatim>\<open>get\<close>, and
  \<^verbatim>\<open>rateLimitedUntil = max(its previous rateLimitedUntil, tnow + KEY_REUSE_DELAY)\<close>, where
  \<open>tnow\<close> is the value of the clock read afterwards in \<^verbatim>\<open>throttle\<close>, with
  \<^verbatim>\<open>KEY_REUSE_DELAY\<close> = 500 ms.
\<close>

theorem get_marks_selected_key:
  assumes "distinct (map hash keys)"
    and "get fam now tnow model keys = Inr (k, keys')"
  shows "KEY_REUSE_DELAY = 500 \<and>
    (\<exists>before after. storedRecord keys k = Some before \<and> storedRecord keys' k = Some after
       \<and> after = k
       \<and> lastUsed after = now
       \<and> rateLimitedUntil after = max (rateLimitedUntil before) (tnow + KEY_REUSE_DELAY))"
proof -
  from get_writes [OF assms] obtain s where s: "s < length keys"
    and h: "hash (keys ! s) = hash k"
    and keys': "keys' = keys[s := (keys ! s)\<lparr>lastUsed := now, rateLimitedAt := tnow,
           rateLimitedUntil := max (rateLimitedUntil (keys ! s)) (tnow + KEY_REUSE_DELAY)\<rparr>]"
    and k: "k = keys' ! s"
    by blast
  have hashes: "map hash keys' = map hash keys"
    unfolding keys' using s by (simp add: map_update list_update_same_conv)
  have before: "storedRecord keys k = Some (keys ! s)"
    using assms(1) s h by (rule storedRecord_distinct)
  have "storedRecord keys' k = Some (keys' ! s)"
  proof (rule storedRecord_distinct)
    show "distinct (map hash keys')" using assms(1) hashes by simp
    show "s < length keys'" using s keys' by simp
    show "hash (keys' ! s) = hash k" using s h keys' by simp
  qed
  moreover have "lastUsed (keys' ! s) = now"
    "rateLimitedUntil (keys' ! s) = max (rateLimitedUntil (keys ! s)) (tnow + KEY_REUSE_DELAY)"
    using s keys' by simp_all
  ultimately show ?thesis
    using before k by (simp add: KEY_REUSE_DELAY_def)
qed

theorem get_marks_selected_key_witness:
  "distinct (map hash throttledKeys)
   \<and> get sampleFamily 10000 10001 ''gemini-pro'' throttledKeys
       = Inr ((sampleKey ''b'')\<lparr>lastUsed := 10000, rateLimitedAt := 10001, rateLimitedUntil := 11000\<rparr>,
              [(sampleKey ''a'')\<lparr>rateLimitedAt := 9500, rateLimitedUntil := 11500\<rparr>,
               (sampleKey ''b'')\<lparr>lastUsed := 10000, rateLimitedAt := 10001, rateLimitedUntil := 11000\<rparr>])
   \<and> KEY_REUSE_DELAY = 500"
proof -
  have d: "distinct (map hash throttledKeys)"
    by code_simp
  have run: "get sampleFamily 10000 10001 ''gemini-pro'' throttledKeys
       = Inr ((sampleKey ''b'')\<lparr>lastUsed := 10000, rateLimitedAt := 10001, rateLimitedUntil := 11000\<rparr>,
              [(sampleKey ''a'')\<lparr>rateLimitedAt := 9500, rateLimitedUntil := 11500\<rparr>,
               (sampleKey ''b'')\<lparr>lastUsed := 10000, rateLimitedAt := 10001, rateLimitedUntil := 11000\<rparr>])"
    by code_simp
  from get_marks_selected_key [OF d run] d run show ?thesis
    by blast
qed

text \<open>
  The claim as stated fails in two ways. \<^verbatim>\<open>get\<close> and \<^verbatim>\<open>throttle\<close> each read the clock:
  with the readings 10000 and 10001 on a fresh key, \<^verbatim>\<open>lastUsed\<close> is 10000 and
  \<^verbatim>\<open>rateLimitedUntil\<close> is 10501, so no single \<open>now\<close> fits both. And \<^verbatim>\<open>throttle\<close> looks
  the key up by its hash: in the provider built from two keys whose hashes collide, the
  selection at time 20000 returns the second key with its \<^verbatim>\<open>rateLimitedUntil\<close> still 0
  and throttles the first.
\<close>

theorem get_marks_selected_key_counterexample:
  "get sampleFamily 10000 10001 ''gemini-pro'' [sampleKey ''a'']
     = Inr ((sampleKey ''a'')\<lparr>lastUsed := 10000, rateLimitedAt := 10001, rateLimitedUntil := 10501\<rparr>,
            [(sampleKey ''a'')\<lparr>lastUsed := 10000, rateLimitedAt := 10001, rateLimitedUntil := 10501\<rparr>])
   \<and> map hash collidingKeys = [''plm-caaf373a'', ''plm-caaf373a'']
   \<and> get sampleFamily 20000 20000 ''gemini-pro'' collidingKeysUsed
     = Inr ((newKey collidingDigest ''k164064'')\<lparr>lastUsed := 20000, rateLimitedUntil := 0\<rparr>,
            [(newKey collidingDigest ''k153629'')
               \<lparr>lastUsed := 10000, rateLimitedAt := 20000, rateLimitedUntil := 20500\<rparr>,
             (newKey collidingDigest ''k164064'')\<lparr>lastUsed := 20000, rateLimitedUntil := 0\<rparr>])"
  by code_simp

section \<open>The rate-limit window\<close>

lemma list_all_update:
  "list_all P xs \<Longrightarrow> P x \<Longrightarrow> list_all P (xs[i := x])"
  using set_update_subset_insert [of xs i x] by (auto simp: list_all_iff)

lemma list_all_nth: "list_all P xs \<Longrightarrow> i < length xs \<Longrightarrow> P (xs ! i)"
  by (simp add: list_all_iff)

lemma findIndex_less: "findIndex P xs = Some i \<Longrightarrow> i < length xs"
  by (simp add: findIndex_Some_iff)

lemma windowOrdered_constructor:
  "list_all windowOrdered (GoogleAIKeyProvider sha256hex googleAIKey)"
  by (auto simp: GoogleAIKeyProvider_def list_all_iff windowOrdered_def newKey_def
      split: option.splits)

lemma windowOrdered_get:
  assumes "list_all windowOrdered keys" and "get fam now tnow model keys = Inr (k, keys')"
  shows "list_all windowOrdered keys'"
proof -
  from assms(2) obtain s j where s: "s < length keys" and js: "j \<le> s"
    and keys': "keys' = (keys[s := (keys ! s)\<lparr>lastUsed := now\<rparr>])
       [j := ((keys[s := (keys ! s)\<lparr>lastUsed := now\<rparr>]) ! j)\<lparr>rateLimitedAt := tnow,
          rateLimitedUntil := max (rateLimitedUntil ((keys[s := (keys ! s)\<lparr>lastUsed := now\<rparr>]) ! j))
                                  (tnow + KEY_REUSE_DELAY)\<rparr>]"
    by (rule get_Inr)
  have "windowOrdered (keys ! s)"
    using assms(1) s by (rule list_all_nth)
  then have "windowOrdered ((keys ! s)\<lparr>lastUsed := now\<rparr>)"
    by (simp add: windowOrdered_def)
  with assms(1) have "list_all windowOrdered (keys[s := (keys ! s)\<lparr>lastUsed := now\<rparr>])"
    by (rule list_all_update)
  moreover have "windowOrdered (k1\<lparr>rateLimitedAt := tnow,
      rateLimitedUntil := max (rateLimitedUntil k1) (tnow + KEY_REUSE_DELAY)\<rparr>)" for k1
    by (simp add: windowOrdered_def KEY_REUSE_DELAY_def)
  ultimately show ?thesis
    unfolding keys' by (rule list_all_update)
qed

lemma windowOrdered_disable:
  assumes "list_all windowOrdered keys"
  shows "list_all windowOrdered (disable k keys)"
proof (cases "findIndex (\<lambda>k'. hash k' = hash k) keys")
  case None
  with assms show ?thesis by (simp add: disable_def)
next
  case (Some i)
  then have "windowOrdered (keys ! i)"
    using assms by (auto intro: list_all_nth dest: findIndex_less)
  then have "windowOrdered ((keys ! i)\<lparr>isDisabled := True\<rparr>)"
    by (simp add: windowOrdered_def)
  with assms have "list_all windowOrdered (keys[i := (keys ! i)\<lparr>isDisabled := True\<rparr>])"
    by (rule list_all_update)
  with assms Some show ?thesis by (simp add: disable_def)
qed

lemma windowOrdered_incrementUsage:
  assumes "list_all windowOrdered keys"
  shows "list_all windowOrdered (incrementUsage fam h model tokens keys)"
proof (cases "findIndex (\<lambda>k. hash k = h) keys")
  case None
  with assms show ?thesis by (simp add: incrementUsage_def)
next
  case (Some i)
  then have "windowOrdered (keys ! i)"
    using assms by (auto intro: list_all_nth dest: findIndex_less)
  then have "windowOrdered (addTokens (fam model) tokens
      ((keys ! i)\<lparr>promptCount := promptCount (keys ! i) + 1\<rparr>))"
    by (cases "fam model") (simp_all add: windowOrdered_def)
  with assms have "list_all windowOrdered (keys[i := addTokens (fam model) tokens
      ((keys ! i)\<lparr>promptCount := promptCount (keys ! i) + 1\<rparr>)])"
    by (rule list_all_update)
  with Some show ?thesis by (simp add: incrementUsage_def)
qed

lemma windowOrdered_markRateLimited:
  assumes "list_all windowOrdered keys" and "markRateLimited now h keys = Inr keys'"
  shows "list_all windowOrdered keys'"
proof (cases "findIndex (\<lambda>k. hash k = h) keys")
  case None
  with assms(2) show ?thesis by (simp add: markRateLimited_def)
next
  case (Some i)
  have "windowOrdered ((keys ! i)\<lparr>rateLimitedAt := now,
      rateLimitedUntil := now + RATE_LIMIT_LOCKOUT\<rparr>)"
    by (simp add: windowOrdered_def RATE_LIMIT_LOCKOUT_def)
  with assms(1) have "list_all windowOrdered (keys[i := (keys ! i)\<lparr>rateLimitedAt := now,
      rateLimitedUntil := now + RATE_LIMIT_LOCKOUT\<rparr>])"
    by (rule list_all_update)
  with assms(2) Some show ?thesis by (auto simp: markRateLimited_def)
qed

lemma windowOrdered_update:
  assumes "list_all windowOrdered keys" and "update now h upd keys = Inr keys'"
    and "p_rateLimitedAt upd = None" and "p_rateLimitedUntil upd = None"
  shows "list_all windowOrdered keys'"
proof (cases "findIndex (\<lambda>k. hash k = h) keys")
  case None
  with assms(2) show ?thesis by (simp add: update_def)
next
  case (Some i)
  let ?patch = "upd\<lparr>p_lastChecked := Some (orElse (p_lastChecked upd) now)\<rparr>"
  have "windowOrdered (keys ! i)"
    using assms(1) Some by (auto intro: list_all_nth dest: findIndex_less)
  then have "windowOrdered (assign (keys ! i) ?patch)"
    using assms(3,4) by (simp add: windowOrdered_def assign_def orElse_def)
  with assms(1) have "list_all windowOrdered (keys[i := assign (keys ! i) ?patch])"
    by (rule list_all_update)
  with assms(2) Some show ?thesis by (auto simp: update_def)
qed

lemma windowOrdered_perform:
  assumes "list_all windowOrdered keys" and "leavesWindow c"
  shows "list_all windowOrdered (perform fam keys c)"
proof (cases c)
  case (Get model now tnow)
  with assms(1) show ?thesis
    by (auto split: sum.splits dest: windowOrdered_get)
next
  case (Disable k)
  with assms(1) show ?thesis by (simp add: windowOrdered_disable)
next
  case (Update h upd now)
  with assms show ?thesis
    by (auto split: sum.splits dest: windowOrdered_update)
next
  case (IncrementUsage h model tokens)
  with assms(1) show ?thesis by (simp add: windowOrdered_incrementUsage)
next
  case (MarkRateLimited h now)
  with assms(1) show ?thesis
    by (auto split: sum.splits dest: windowOrdered_markRateLimited)
qed

lemma windowOrdered_run:
  "list_all windowOrdered keys \<Longrightarrow> list_all leavesWindow calls
     \<Longrightarrow> list_all windowOrdered (foldl (perform fam) keys calls)"
  by (induction calls arbitrary: keys) (simp_all add: windowOrdered_perform)

text \<open>
  Claim C6, as amended. For every key record of a provider, after construction and after
  every later \<^verbatim>\<open>get\<close>, \<^verbatim>\<open>markRateLimited\<close>, \<^verbatim>\<open>disable\<close>, \<^verbatim>\<open>incrementUsage\<close> and
  \<^verbatim>\<open>update\<close> whose patch sets neither \<^verbatim>\<open>rateLimitedAt\<close> nor \<^verbatim>\<open>rateLimitedUntil\<close>,
  \<^verbatim>\<open>rateLimitedUntil >= rateLimitedAt\<close> holds, whatever the clock reads.
\<close>

theorem window_ordered_after_every_call:
  assumes "list_all leavesWindow calls"
  shows "list_all windowOrdered
           (foldl (perform fam) (GoogleAIKeyProvider sha256hex googleAIKey) calls)"
  using windowOrdered_constructor assms by (rule windowOrdered_run)

theorem window_ordered_after_every_call_witness:
  "list_all leavesWindow sampleCalls
   \<and> list_all windowOrdered
        (foldl (perform sampleFamily) (GoogleAIKeyProvider sampleDigest (Some ''a, b'')) sampleCalls)
   \<and> length (GoogleAIKeyProvider sampleDigest (Some ''a, b'')) = 2"
proof -
  have calls: "list_all leavesWindow sampleCalls"
    by code_simp
  have "length (GoogleAIKeyProvider sampleDigest (Some ''a, b'')) = 2"
    by code_simp
  with window_ordered_after_every_call [OF calls] calls show ?thesis
    by blast
qed

text \<open>
  The claim as stated, with every update, fails: \<^verbatim>\<open>update\<close> takes any
  \<^verbatim>\<open>Partial<GoogleAIKey>\<close>, and a patch that sets \<^verbatim>\<open>rateLimitedAt\<close> alone moves the
  start of the window behind its end.
\<close>

theorem window_ordered_update_counterexample:
  "\<not> list_all windowOrdered
       (foldl (perform sampleFamily) (GoogleAIKeyProvider sampleDigest (Some ''a, b''))
          [Update ''plm-a'' windowPatch 1000])"
  by code_simp

section \<open>The lockout period\<close>

lemma length_filter_less_iff:
  "length (filter P xs) < length xs \<longleftrightarrow> list_ex (\<lambda>x. \<not> P x) xs"
proof
  assume "length (filter P xs) < length xs"
  then have "filter P xs \<noteq> xs" by auto
  then show "list_ex (\<lambda>x. \<not> P x) xs"
    by (auto simp: filter_id_conv list_ex_iff)
next
  assume "list_ex (\<lambda>x. \<not> P x) xs"
  then obtain x where "x \<in> set xs" "\<not> P x"
    by (auto simp: list_ex_iff)
  then show "length (filter P xs) < length xs"
    by (rule length_filter_less)
qed

lemma fold_min_Min:
  "fold (\<lambda>k m. min m (f k)) ks (a :: int) = Min (set (a # map f ks))"
proof (induction ks arbitrary: a)
  case Nil
  show ?case by simp
next
  case (Cons k ks)
  have "fold (\<lambda>k m. min m (f k)) (k # ks) a = Min (set (min a (f k) # map f ks))"
    by (simp add: Cons.IH)
  also have "\<dots> = Min (insert (min a (f k)) (f ` set ks))"
    by simp
  also have "\<dots> = Min (insert a (insert (f k) (f ` set ks)))"
  proof (cases "ks = []")
    case True
    then show ?thesis by (simp add: min_def)
  next
    case False
    then have "finite (f ` set ks)" "f ` set ks \<noteq> {}" by simp_all
    then show ?thesis
      by (simp add: min.assoc)
  qed
  finally show ?case by simp
qed

text \<open>
  Claim C4, as amended. \<^verbatim>\<open>getLockoutPeriod\<close> takes no model and looks at every enabled
  key, whatever its families: it returns 0 if the provider has no enabled key or if some
  enabled key is usable now (\<^verbatim>\<open>now >= rateLimitedUntil\<close>), and otherwise the least
  \<^verbatim>\<open>rateLimitedUntil - now\<close> over the enabled keys.
\<close>

theorem getLockoutPeriod_over_enabled_keys:
  "getLockoutPeriod now keys =
     (let activeKeys = filter (\<lambda>k. \<not> isDisabled k) keys
      in if activeKeys = [] \<or> list_ex (\<lambda>k. rateLimitedUntil k \<le> now) activeKeys then 0
         else Min (set (map (\<lambda>k. rateLimitedUntil k - now) activeKeys)))"
proof (cases "filter (\<lambda>k. \<not> isDisabled k) keys")
  case Nil
  then show ?thesis by (simp add: getLockoutPeriod_def)
next
  case (Cons k ks)
  have any: "length (filter (\<lambda>k. now < rateLimitedUntil k) (k # ks)) < length (k # ks)
      \<longleftrightarrow> list_ex (\<lambda>k. rateLimitedUntil k \<le> now) (k # ks)"
    unfolding length_filter_less_iff by (simp only: not_less)
  have "getLockoutPeriod now keys =
      (if list_ex (\<lambda>k. rateLimitedUntil k \<le> now) (k # ks) then 0
       else fold (\<lambda>k m. min m (rateLimitedUntil k - now)) ks (rateLimitedUntil k - now))"
    unfolding getLockoutPeriod_def Cons Let_def list.case any ..
  also have "fold (\<lambda>k m. min m (rateLimitedUntil k - now)) ks (rateLimitedUntil k - now)
      = Min (set (map (\<lambda>k. rateLimitedUntil k - now) (k # ks)))"
    by (simp only: fold_min_Min list.map)
  finally show ?thesis
    by (simp only: Cons Let_def) simp
qed

text \<open>
  The claim as stated, with the eligible keys those of the model's family, fails on a
  provider whose only gemini-pro key is rate limited while a key of another family is
  free: the specification's period for gemini-pro is 1500, the method returns 0.
\<close>

theorem getLockoutPeriod_family_counterexample:
  "getLockoutPeriod_spec sampleFamily 10000 ''gemini-pro'' lockoutKeys = 1500
   \<and> getLockoutPeriod 10000 lockoutKeys = 0"
  by code_simp

section \<open>Routing in the key pool\<close>

lemma getKeyProvider_KeyPool:
  "getKeyProvider (KeyPool openAIGet anthropicGet) OpenAI
     = Some \<lparr>service = OpenAI, provider_get = openAIGet\<rparr>"
  "getKeyProvider (KeyPool openAIGet anthropicGet) Anthropic
     = Some \<lparr>service = Anthropic, provider_get = anthropicGet\<rparr>"
  "getKeyProvider (KeyPool openAIGet anthropicGet) GoogleAI = None"
  by (simp_all add: getKeyProvider_def KeyPool_def)

text \<open>
  Claim C3, as amended. \<^verbatim>\<open>KeyPool.get(model)\<close> infers the service from the model name by
  prefix and delegates the selection: a model that starts with \<^verbatim>\<open>gpt\<close> (so every
  \<^verbatim>\<open>gpt-*\<close>) goes to the openai provider, any other model that starts with \<^verbatim>\<open>claude-\<close>
  to the anthropic provider, and every other model, \<^verbatim>\<open>gemini-*\<close> included, fails with
  the error "Unknown service for model ...": the pool holds no google-ai provider.
\<close>

theorem KeyPool_get_routes_by_prefix:
  "KeyPool_get (KeyPool openAIGet anthropicGet) model =
     (if prefix ''gpt'' model then openAIGet model
      else if prefix ''claude-'' model then anthropicGet model
      else Inl (Error (''Unknown service for model '' @ model)))"
  by (simp add: KeyPool_get_def getService_def thenE_def getKeyProvider_KeyPool)

text \<open>The claim as stated fails for a gemini model: the pool throws.\<close>

theorem KeyPool_get_gemini_counterexample:
  "getService ''gemini-pro'' = Inl (Error ''Unknown service for model gemini-pro'')
   \<and> KeyPool_get (KeyPool (sampleProviderGet ''openai'') (sampleProviderGet ''anthropic''))
         ''gemini-pro'' = Inl (Error ''Unknown service for model gemini-pro'')"
  by code_simp

section \<open>The response to an OpenAI client\<close>

lemma propOf_setProp:
  "propOf (setProp fs n v) m = (if m = n then v else propOf fs m)"
  by (induction fs n v rule: setProp.induct) (auto simp: propOf_def)

lemma propOf_transformed:
  assumes "transformAnthropicTextResponseToOpenAI ToString now anthropicBody req = Inr b"
    and "propOf anthropicBody ''completion'' = JStr completion"
  shows "propOf b ''object'' = JStr ''chat.completion''"
    and "propOf b ''usage'' =
           JObj [(''prompt_tokens'', optNum (promptTokens req)),
                 (''completion_tokens'', optNum (outputTokens req)),
                 (''total_tokens'', JNum (orElse (promptTokens req) 0 + orElse (outputTokens req) 0))]"
    and "propOf b ''choices'' =
           JArr [JObj [(''message'', JObj [(''role'', JStr ''assistant''),
                                          (''content'', JStr (trim completion))]),
                       (''finish_reason'', propOf anthropicBody ''stop_reason''),
                       (''index'', JNum 0)]]"
  using assms
  by (auto simp: transformAnthropicTextResponseToOpenAI_def thenE_def Let_def propOf_def)

text \<open>
  Claim C7, as amended. For every non-streaming Anthropic text response served to a
  client whose inbound dialect is openai, the body written to the client has
  \<^verbatim>\<open>choices[0].message.content\<close> equal to the upstream \<^verbatim>\<open>completion\<close> with the white
  space at its two ends trimmed, \<^verbatim>\<open>choices[0].message.role = "assistant"\<close>,
  \<^verbatim>\<open>object = "chat.completion"\<close>, and a \<^verbatim>\<open>usage\<close> block whose \<^verbatim>\<open>prompt_tokens\<close> and
  \<^verbatim>\<open>completion_tokens\<close> are the request's token estimates and whose \<^verbatim>\<open>total_tokens\<close> is
  their sum, an absent estimate counting as 0.
\<close>

theorem anthropic_text_response_to_openai:
  assumes "inboundApi req = Some openai"
    and "propOf upstream ''completion'' = JStr completion"
  shows "\<exists>b. anthropicResponseHandler promptLogging ToString now req (Inr upstream) = Inr (200, b)
      \<and> propOf b ''object'' = JStr ''chat.completion''
      \<and> propOf b ''usage'' =
           JObj [(''prompt_tokens'', optNum (promptTokens req)),
                 (''completion_tokens'', optNum (outputTokens req)),
                 (''total_tokens'', JNum (orElse (promptTokens req) 0 + orElse (outputTokens req) 0))]
      \<and> propOf b ''choices'' =
           JArr [JObj [(''message'', JObj [(''role'', JStr ''assistant''),
                                          (''content'', JStr (trim completion))]),
                       (''finish_reason'', propOf upstream ''stop_reason''),
                       (''index'', JNum 0)]]"
proof -
  define body1 where "body1 =
    (if promptLogging
     then setProp upstream ''proxy_note''
            (JStr (''Prompts are logged on this proxy instance. See ''
                   @ orElse (host req) ''undefined'' @ '' for more information.''))
     else upstream)"
  have completion: "propOf body1 ''completion'' = JStr completion"
    and stop: "propOf body1 ''stop_reason'' = propOf upstream ''stop_reason''"
    using assms(2) by (simp_all add: body1_def propOf_setProp)
  obtain body2 where
    body2: "transformAnthropicTextResponseToOpenAI ToString now body1 req = Inr body2"
    using completion
    by (simp add: transformAnthropicTextResponseToOpenAI_def thenE_def Let_def)
  note fields = propOf_transformed [OF body2 completion]
  define b where "b =
    (if truthy (tokenizerInfo req) then setProp body2 ''proxy_tokenizer'' (tokenizerInfo req)
     else body2)"
  have "anthropicResponseHandler promptLogging ToString now req (Inr upstream) = Inr (200, b)"
    using assms(1) body2
    by (simp add: anthropicResponseHandler_def Let_def thenE_def body1_def b_def)
  moreover have "propOf b n = propOf body2 n" if "n \<noteq> ''proxy_tokenizer''" for n
    using that by (simp add: b_def propOf_setProp)
  ultimately show ?thesis
    using fields stop by auto
qed

theorem anthropic_text_response_to_openai_witness:
  "inboundApi sampleRequest = Some openai
   \<and> propOf sampleCompletion ''completion'' = JStr '' Hello there.''
   \<and> (\<exists>b. anthropicResponseHandler True sampleToString 1700000000000 sampleRequest
              (Inr sampleCompletion) = Inr (200, b)
          \<and> propOf b ''usage'' =
               JObj [(''prompt_tokens'', JNum 12), (''completion_tokens'', JNum 5),
                     (''total_tokens'', JNum 17)])"
proof -
  have api: "inboundApi sampleRequest = Some openai"
    by (simp add: sampleRequest_def)
  have completion: "propOf sampleCompletion ''completion'' = JStr '' Hello there.''"
    by (simp add: sampleCompletion_def propOf_def)
  have "promptTokens sampleRequest = Some 12" "outputTokens sampleRequest = Some 5"
    by (simp_all add: sampleRequest_def)
  with anthropic_text_response_to_openai [OF api completion, of True sampleToString 1700000000000]
    api completion show ?thesis
    by (auto simp: optNum_def orElse_def)
qed

text \<open>
  The claim as stated, with the content equal to the upstream \<^verbatim>\<open>completion\<close>, fails on
  a completion that starts with a space, as Anthropic's do: the handler writes it
  trimmed.
\<close>

theorem anthropic_text_response_content_counterexample:
  "propOf sampleCompletion ''completion'' = JStr '' Hello there.''
   \<and> anthropicResponseHandler False sampleToString 1700000000000 sampleRequest
        (Inr sampleCompletion)
      = Inr (200,
          [(''id'', JStr ''ant-abc123''),
           (''object'', JStr ''chat.completion''),
           (''created'', JNum 1700000000000),
           (''model'', JStr ''claude-2''),
           (''usage'', JObj [(''prompt_tokens'', JNum 12), (''completion_tokens'', JNum 5),
                            (''total_tokens'', JNum 17)]),
           (''choices'', JArr [JObj
              [(''message'', JObj [(''role'', JStr ''assistant''),
                                  (''content'', JStr ''Hello there.'')]),
               (''finish_reason'', JStr ''stop_sequence''),
               (''index'', JNum 0)]])])"
  by code_simp

section \<open>The routes of the Anthropic router\<close>

lemma thenE_Inr [simp]: "thenE (Inr v) f = f v"
  by (simp add: thenE_def)

lemma thenE_Inl [simp]: "thenE (Inl e) f = Inl e"
  by (simp add: thenE_def)

text \<open>
  Route paths match themselves, and a path that the route \<^verbatim>\<open>/v1/complete\<close> matches is
  none of the two other paths that \<^verbatim>\<open>pathFilter\<close> looks for.
\<close>

lemma matchRoute_refl: "matchRoute route route"
  by (simp add: matchRoute_def)

lemma matchRoute_length:
  "matchRoute route path \<Longrightarrow> length path = length route \<or> length path = Suc (length route)"
proof -
  assume "matchRoute route path"
  then have "map toLowerASCII path = map toLowerASCII route
      \<or> map toLowerASCII path = map toLowerASCII route @ ''/''"
    by (simp add: matchRoute_def Let_def)
  then have "length (map toLowerASCII path) = length (map toLowerASCII route)
      \<or> length (map toLowerASCII path) = length (map toLowerASCII route @ ''/'')"
    by metis
  then show ?thesis by simp
qed

lemma routes_apart:
  "\<not> matchRoute ''/v1/complete'' ''/v1/chat/completions''"
  "\<not> matchRoute ''/v1/messages'' ''/v1/chat/completions''"
  by code_simp+

text \<open>
  What the route \<^verbatim>\<open>/v1/complete\<close> does with every request it receives, when the limiter
  lets the request pass and the translation accepts its body: the dialects follow the
  model, and the path is rewritten to \<^verbatim>\<open>/v1/messages\<close> only if the model starts with
  \<^verbatim>\<open>claude-3\<close> and the path is \<^verbatim>\<open>/v1/complete\<close> letter for letter.
\<close>

lemma complete_route_dispatch:
  assumes "matchRoute ''/v1/complete'' (url req)"
    and "propOf (body req) ''model'' = JStr model"
    and "ipLimiter req = None"
    and "transformBody anthropic_text
           (if prefix ''claude-3'' model then anthropic_chat else anthropic_text) (body req) = Inr b"
  shows "anthropicRouter_post ipLimiter transformBody req =
     Some (Inr (req\<lparr>url := (if prefix ''claude-3'' model \<and> url req = ''/v1/complete''
                             then ''/v1/messages'' else url req),
                     body := b,
                     inboundApi := Some anthropic_text,
                     outboundApi := Some (if prefix ''claude-3'' model then anthropic_chat
                                          else anthropic_text),
                     reqService := Some Anthropic\<rparr>))"
proof -
  have other: "url req \<noteq> ''/v1/claude-3/complete''" "url req \<noteq> ''/v1/chat/completions''"
    using matchRoute_length [OF assms(1)] by auto
  show ?thesis
  proof (cases "prefix ''claude-3'' model")
    case True
    with assms other show ?thesis
      by (simp add: anthropicRouter_post_def claudeTextCompletionRouter_def
          createPreprocessorMiddleware_def textToChatPreprocessor_def
          anthropicProxy_def pathFilter_def)
  next
    case False
    with assms other show ?thesis
      by (simp add: anthropicRouter_post_def claudeTextCompletionRouter_def
          createPreprocessorMiddleware_def nativeTextPreprocessor_def
          anthropicProxy_def pathFilter_def)
  qed
qed

text \<open>On the path \<^verbatim>\<open>/v1/complete\<close> itself the route does what the claim says.\<close>

lemma complete_route_exact_path:
  "anthropicRouter_post sampleLimiter sampleTransform (sampleTextRequest ''claude-3-opus-20240229'')
     = Some (Inr ((sampleTextRequest ''claude-3-opus-20240229'')
          \<lparr>url := ''/v1/messages'', inboundApi := Some anthropic_text,
            outboundApi := Some anthropic_chat, reqService := Some Anthropic\<rparr>))
   \<and> anthropicRouter_post sampleLimiter sampleTransform (sampleTextRequest ''claude-2.1'')
     = Some (Inr ((sampleTextRequest ''claude-2.1'')
          \<lparr>inboundApi := Some anthropic_text, outboundApi := Some anthropic_text,
            reqService := Some Anthropic\<rparr>))"
  by code_simp

text \<open>
  Claim C8. A \<^verbatim>\<open>POST /v1/complete\<close> request whose body's model starts with
  \<^verbatim>\<open>claude-3\<close> is preprocessed with inbound dialect anthropic-text and outbound dialect
  anthropic-chat and its upstream path is rewritten to \<^verbatim>\<open>/v1/messages\<close>. The code does
  not do so for every request the route receives: for a \<^verbatim>\<open>claude-3\<close> request that
  writes the path with a trailing slash, \<^verbatim>\<open>claudeTextCompletionRouter\<close> sets the
  outbound dialect anthropic-chat, but \<^verbatim>\<open>pathFilter\<close> compares the path with
  \<^verbatim>\<open>/v1/complete\<close> letter for letter and leaves it as it came, so the request goes to
  the text completion endpoint, which (by the comment on the router) does not serve
  these models.
\<close>

theorem complete_route_trailing_slash_not_rewritten:
  "anthropicRouter_post sampleLimiter sampleTransform (sampleSlashRequest ''claude-3-opus-20240229'')
     = Some (Inr ((sampleTextRequest ''claude-3-opus-20240229'')
          \<lparr>url := ''/v1/complete/'', inboundApi := Some anthropic_text,
            outboundApi := Some anthropic_chat, reqService := Some Anthropic\<rparr>))"
  by code_simp

text \<open>
  Claim C10. On \<^verbatim>\<open>POST /v1/chat/completions\<close> of the Anthropic router, a request whose
  model, as the body carries it after the dialect transformation, starts with \<^verbatim>\<open>gpt-\<close>
  has that model replaced with \<^verbatim>\<open>claude-2.1\<close>, and a request whose model does not start
  with \<^verbatim>\<open>gpt-\<close> keeps its body, hence its model, unchanged. The request is one the
  limiter lets pass and whose body the translation accepts.
\<close>

theorem chat_completions_reassigns_gpt_models:
  assumes "url req = ''/v1/chat/completions''"
    and "ipLimiter req = None"
    and "transformBody openai anthropic_text (body req) = Inr transformed"
    and "propOf transformed ''model'' = JStr model"
  shows "\<exists>req'. anthropicRouter_post ipLimiter transformBody req = Some (Inr req')
      \<and> body req' = (if prefix ''gpt-'' model
                      then setProp transformed ''model'' (JStr ''claude-2.1'') else transformed)
      \<and> propOf (body req') ''model'' = JStr (if prefix ''gpt-'' model then ''claude-2.1'' else model)"
  using assms routes_apart
  by (simp add: anthropicRouter_post_def createPreprocessorMiddleware_def
      maybeReassignModel_def anthropicProxy_def pathFilter_def propOf_setProp matchRoute_refl)

theorem chat_completions_reassigns_gpt_models_witness:
  "(\<exists>req'. anthropicRouter_post sampleLimiter sampleTransform (sampleChatRequest ''gpt-4'')
              = Some (Inr req')
          \<and> body req' = [(''model'', JStr ''claude-2.1''), (''messages'', JArr [])])
   \<and> (\<exists>req'. anthropicRouter_post sampleLimiter sampleTransform (sampleChatRequest ''claude-2'')
              = Some (Inr req')
          \<and> body req' = [(''model'', JStr ''claude-2''), (''messages'', JArr [])])"
proof -
  have gpt: "\<exists>req'. anthropicRouter_post sampleLimiter sampleTransform (sampleChatRequest ''gpt-4'')
              = Some (Inr req')
          \<and> body req' = [(''model'', JStr ''claude-2.1''), (''messages'', JArr [])]"
    using chat_completions_reassigns_gpt_models
      [where req = "sampleChatRequest ''gpt-4''" and model = "''gpt-4''"
         and ipLimiter = sampleLimiter and transformBody = sampleTransform
         and transformed = "body (sampleChatRequest ''gpt-4'')"]
    by (auto simp: sampleChatRequest_def propOf_def sampleLimiter_def sampleTransform_def)
  have claude: "\<exists>req'. anthropicRouter_post sampleLimiter sampleTransform
                (sampleChatRequest ''claude-2'') = Some (Inr req')
          \<and> body req' = [(''model'', JStr ''claude-2''), (''messages'', JArr [])]"
    using chat_completions_reassigns_gpt_models
      [where req = "sampleChatRequest ''claude-2''" and model = "''claude-2''"
         and ipLimiter = sampleLimiter and transformBody = sampleTransform
         and transformed = "body (sampleChatRequest ''claude-2'')"]
    by (auto simp: sampleChatRequest_def propOf_def sampleLimiter_def sampleTransform_def)
  from gpt claude show ?thesis by (rule conjI)
qed

section \<open>The streaming transformer never throws\<close>

lemma asCompletionEvent_Some:
  "asCompletionEvent JSON_parse d = Some ev \<longleftrightarrow>
     (\<exists>fs c cs. JSON_parse d = Some (JObj fs) \<and> ev = JObj fs
        \<and> propOf fs ''choices'' = JArr (JObj c # cs) \<and> truthy (propOf c ''text''))"
proof (cases "JSON_parse d")
  case None
  then show ?thesis
    by (simp add: asCompletionEvent_def tryCompletionEvent_def)
next
  case (Some parsed)
  show ?thesis
  proof (cases parsed)
    case (JObj fs)
    show ?thesis
    proof (cases "propOf fs ''choices''")
      case (JArr xs)
      show ?thesis
      proof (cases xs)
        case Nil
        with Some JObj JArr show ?thesis
          by (simp add: asCompletionEvent_def tryCompletionEvent_def)
      next
        case (Cons x xs')
        with Some JObj JArr show ?thesis
          by (cases x) (auto simp: asCompletionEvent_def tryCompletionEvent_def)
      qed
    qed (use Some JObj in \<open>simp_all add: asCompletionEvent_def tryCompletionEvent_def\<close>)
  qed (use Some in \<open>simp_all add: asCompletionEvent_def tryCompletionEvent_def\<close>)
qed

lemma asCompletionEvent_None:
  "asCompletionEvent JSON_parse d = None \<longleftrightarrow> chatChunk (JSON_parse d) = None"
proof -
  have "chatChunk (JSON_parse d) \<noteq> None \<longleftrightarrow>
     (\<exists>fs c cs. JSON_parse d = Some (JObj fs)
        \<and> propOf fs ''choices'' = JArr (JObj c # cs) \<and> truthy (propOf c ''text''))"
    by (cases "JSON_parse d" rule: chatChunk.cases)
      (auto split: jsval.splits list.splits)
  moreover have "asCompletionEvent JSON_parse d \<noteq> None \<longleftrightarrow>
     (\<exists>fs c cs. JSON_parse d = Some (JObj fs)
        \<and> propOf fs ''choices'' = JArr (JObj c # cs) \<and> truthy (propOf c ''text''))"
    using asCompletionEvent_Some [of JSON_parse d] by auto
  ultimately show ?thesis by blast
qed

lemma convert_recognised:
  assumes "JSON_parse d = Some (JObj fs)"
    and "propOf fs ''choices'' = JArr (JObj c # cs)" and "truthy (propOf c ''text'')"
    and "d \<noteq> []" and "d \<noteq> ''[DONE]''" and "parseEvent data = Inr (Some d)"
  shows "openAITextToOpenAIChat parseEvent JSON_parse data
           = Inr \<lparr>position = - 1, event = chatChunk (JSON_parse d)\<rparr>"
proof -
  have "asCompletionEvent JSON_parse d = Some (JObj fs)"
    using assms(1-3) by (auto simp: asCompletionEvent_Some)
  with assms show ?thesis
    by (simp add: openAITextToOpenAIChat_def choice0_def)
qed

text \<open>
  Claim C9. The streaming transformer \<^verbatim>\<open>openAITextToOpenAIChat\<close> is total: for every
  input data string, including malformed JSON, events that lack the required fields and
  the \<^verbatim>\<open>[DONE]\<close> sentinel, its own code returns a result without throwing, with an
  output event exactly for the recognised text-completion events; every other event is
  skipped. Only a throw of the parser of events, which is given, would pass through.
\<close>

theorem openAITextToOpenAIChat_total:
  "openAITextToOpenAIChat parseEvent JSON_parse data =
     (case parseEvent data of
        Inl thrown \<Rightarrow> Inl thrown
      | Inr rawEvent_data \<Rightarrow>
          Inr \<lparr>position = - 1,
               event = (case rawEvent_data of
                          None \<Rightarrow> None
                        | Some d \<Rightarrow> if d = [] \<or> d = ''[DONE]'' then None
                                    else chatChunk (JSON_parse d))\<rparr>)"
proof (cases "parseEvent data")
  case (Inl thrown)
  then show ?thesis by (simp add: openAITextToOpenAIChat_def)
next
  case (Inr rawEvent_data)
  show ?thesis
  proof (cases rawEvent_data)
    case None
    with Inr show ?thesis by (simp add: openAITextToOpenAIChat_def)
  next
    case (Some d)
    show ?thesis
    proof (cases "d = [] \<or> d = ''[DONE]''")
      case True
      with Inr Some show ?thesis by (auto simp: openAITextToOpenAIChat_def)
    next
      case False
      show ?thesis
      proof (cases "asCompletionEvent JSON_parse d")
        case None
        then have "chatChunk (JSON_parse d) = None"
          by (simp add: asCompletionEvent_None)
        with None Inr Some False show ?thesis
          by (simp add: openAITextToOpenAIChat_def)
      next
        case (Some ev)
        then obtain fs c cs where "JSON_parse d = Some (JObj fs)"
          "propOf fs ''choices'' = JArr (JObj c # cs)" "truthy (propOf c ''text'')"
          by (auto simp: asCompletionEvent_Some)
        then have "openAITextToOpenAIChat parseEvent JSON_parse data
           = Inr \<lparr>position = - 1, event = chatChunk (JSON_parse d)\<rparr>"
          using False Inr \<open>rawEvent_data = Some d\<close> by (intro convert_recognised) auto
        with False Inr \<open>rawEvent_data = Some d\<close> show ?thesis by simp
      qed
    qed
  qed
qed

end
